theory Spec2Isabelle
  imports Complex_Main
begin

section \<open>Strings and numbers\<close>

text \<open>
  A script string is modelled by its UTF-8 bytes: a \<^typ>\<open>string\<close> is a list of
  8-bit characters. Every character the source tests for (digits, \<open>/\<close>, \<open>?\<close>,
  \<open>:\<close>, \<open>#\<close>, the line feed) is ASCII, and no byte of a multi-byte UTF-8
  sequence is ASCII, so prefix tests, searches and splits agree with the source.

  A script number that holds an integer is an \<^typ>\<open>int\<close>. The source's numbers are
  doubles, exact on integers up to \<open>2^53\<close>; content lengths, byte offsets, chunk indices
  and epoch milliseconds are far below that.
\<close>

definition is_digit :: "char \<Rightarrow> bool" where
  "is_digit c \<longleftrightarrow> c \<in> set ''0123456789''"

definition digit_val :: "char \<Rightarrow> int" where
  "digit_val c = int (of_char c) - 48"

text \<open>\<open>parseInt(s, 10)\<close> on a non-empty string of decimal digits.\<close>

definition parseInt :: "string \<Rightarrow> int" where
  "parseInt s = foldl (\<lambda>a c. 10 * a + digit_val c) 0 s"

text \<open>\<open>strip_prefix p s\<close> is the rest of \<open>s\<close> after its prefix \<open>p\<close>, when \<open>s\<close> starts with \<open>p\<close>.\<close>

fun strip_prefix :: "string \<Rightarrow> string \<Rightarrow> string option" where
  "strip_prefix [] s = Some s"
| "strip_prefix (c # p) [] = None"
| "strip_prefix (c # p) (d # s) = (if c = d then strip_prefix p s else None)"

definition startsWith :: "string \<Rightarrow> string \<Rightarrow> bool" where
  "startsWith s p \<longleftrightarrow> strip_prefix p s \<noteq> None"

section \<open>Range header parser (\<open>parseRangeHeader\<close>)\<close>

text \<open>
  The match of \<open>/^bytes=(\d*)-(\d*)$/\<close>: the two captured groups, or \<open>None\<close>.
  The first group is greedy and the character after it must be \<open>-\<close>, which is no
  digit, so the group is the longest run of digits; the second group must reach the end
  of the input.
\<close>

definition range_match :: "string \<Rightarrow> (string \<times> string) option" where
  "range_match h =
     (case strip_prefix ''bytes='' h of
        None \<Rightarrow> None
      | Some r \<Rightarrow>
          (let startStr = takeWhile is_digit r in
           case dropWhile is_digit r of
             [] \<Rightarrow> None
           | c # endStr \<Rightarrow>
               if c = CHR ''-'' \<and> list_all is_digit endStr then Some (startStr, endStr)
               else None))"

text \<open>
  \<^verbatim>\<open>
  function parseRangeHeader(rangeHeader, contentLength) {
    const match = rangeHeader.match(/^bytes=(\d*)-(\d*)$/);
    if (!match) return null;
    const [, startStr, endStr] = match;
    let start = startStr ? parseInt(startStr, 10) : 0;
    let end = endStr ? parseInt(endStr, 10) : contentLength - 1;
    if (!startStr && endStr) {
      start = Math.max(0, contentLength - end);
      end = contentLength - 1;
    }
    if (start >= contentLength || end >= contentLength || start > end) return null;
    return { start, end };
  }
  \<close>
  The result \<open>{start, end}\<close> is the pair \<open>(start, end)\<close>; \<open>null\<close> is \<open>None\<close>.
\<close>

definition parseRangeHeader :: "string \<Rightarrow> int \<Rightarrow> (int \<times> int) option" where
  "parseRangeHeader rangeHeader contentLength =
     (case range_match rangeHeader of
        None \<Rightarrow> None
      | Some (startStr, endStr) \<Rightarrow>
          (let start0 = (if startStr \<noteq> [] then parseInt startStr else 0);
               end0 = (if endStr \<noteq> [] then parseInt endStr else contentLength - 1);
               suffix = (startStr = [] \<and> endStr \<noteq> []);
               start1 = (if suffix then max 0 (contentLength - end0) else start0);
               end1 = (if suffix then contentLength - 1 else end0)
           in if start1 \<ge> contentLength \<or> end1 \<ge> contentLength \<or> start1 > end1
              then None else Some (start1, end1)))"

text \<open>
  The reference behaviour in the specification's words: a header has the single form
  when it is \<open>bytes=\<close>, digits, \<open>-\<close>, digits; a computed window \<open>(start, end)\<close> is
  invalid when \<open>start \<ge> contentLength\<close>, \<open>end \<ge> contentLength\<close> or
  \<open>start > end\<close>.
\<close>

definition single_form :: "string \<Rightarrow> bool" where
  "single_form h \<longleftrightarrow>
     (\<exists>a b. list_all is_digit a \<and> list_all is_digit b \<and> h = ''bytes='' @ a @ ''-'' @ b)"

definition validated :: "int \<Rightarrow> int \<times> int \<Rightarrow> (int \<times> int) option" where
  "validated contentLength w =
     (if fst w \<ge> contentLength \<or> snd w \<ge> contentLength \<or> fst w > snd w
      then None else Some w)"

section \<open>Chunk manifest (\<open>MP4ChunkManager.generateManifest\<close>)\<close>

text \<open>Decimal text of an integer, as a template literal prints it.\<close>

fun show_nat :: "nat \<Rightarrow> string" where
  "show_nat n =
     (if n < 10 then [char_of (48 + n)]
      else show_nat (n div 10) @ [char_of (48 + n mod 10)])"

definition show_int :: "int \<Rightarrow> string" where
  "show_int i = (if i < 0 then CHR ''-'' # show_nat (nat (- i)) else show_nat (nat i))"

text \<open>
  \<open>encodeURIComponent\<close> on the UTF-8 bytes of a well-formed string: the unreserved
  characters stay, every other byte becomes \<open>%XX\<close> in upper-case hexadecimal.
\<close>

definition uri_unreserved :: "char \<Rightarrow> bool" where
  "uri_unreserved c \<longleftrightarrow>
     c \<in> set (''ABCDEFGHIJKLMNOPQRSTUVWXYZabcdefghijklmnopqrstuvwxyz0123456789'' @ ''-_.!~*()'' @ [CHR 0x27])"

definition hex_digit :: "nat \<Rightarrow> char" where
  "hex_digit n = ''0123456789ABCDEF'' ! (n mod 16)"

definition percent_byte :: "char \<Rightarrow> string" where
  "percent_byte c =
     (if uri_unreserved c then [c]
      else [CHR ''%'', hex_digit (of_char c div 16), hex_digit (of_char c mod 16)])"

definition encodeURIComponent :: "string \<Rightarrow> string" where
  "encodeURIComponent s = concat (map percent_byte s)"

record MP4ChunkInfo =
  chunk_index :: int
  chunk_start :: int
  chunk_end :: int
  chunk_size :: int
  chunk_url :: string

record 'h MP4Manifest =
  manifest_url :: string
  manifest_totalSize :: int
  manifest_chunkSize :: int
  manifest_totalChunks :: int
  manifest_chunks :: "MP4ChunkInfo list"
  manifest_headers :: 'h

text \<open>
  \<^verbatim>\<open>
  getChunkUrl(url, chunkIndex, headers) {
    const headersParam = encodeURIComponent(JSON.stringify(headers));
    return `/mp4-proxy?url=${encodeURIComponent(url)}&chunk=${chunkIndex}&headers=${headersParam}`;
  }
  \<close>
  \<open>JSON.stringify\<close> belongs to the platform: it is the parameter \<open>stringify\<close>.
\<close>

definition getChunkUrl :: "('h \<Rightarrow> string) \<Rightarrow> string \<Rightarrow> int \<Rightarrow> 'h \<Rightarrow> string" where
  "getChunkUrl stringify url chunkIndex headers =
     ''/mp4-proxy?url='' @ encodeURIComponent url @ ''&chunk='' @ show_int chunkIndex
       @ ''&headers='' @ encodeURIComponent (stringify headers)"

text \<open>
  The body of the loop \<open>for (let i = 0; i < totalChunks; i++)\<close> of
  \<open>generateManifest\<close>, and the loop itself.
\<close>

definition mk_chunk :: "('h \<Rightarrow> string) \<Rightarrow> string \<Rightarrow> int \<Rightarrow> 'h \<Rightarrow> int \<Rightarrow> int \<Rightarrow> MP4ChunkInfo" where
  "mk_chunk stringify url totalSize headers chunkSize i =
     (let start = i * chunkSize;
          end1 = min (start + chunkSize - 1) (totalSize - 1);
          size1 = end1 - start + 1
      in \<lparr>chunk_index = i, chunk_start = start, chunk_end = end1, chunk_size = size1,
          chunk_url = getChunkUrl stringify url i headers\<rparr>)"

function chunk_loop :: "(int \<Rightarrow> 'a) \<Rightarrow> int \<Rightarrow> int \<Rightarrow> 'a list" where
  "chunk_loop body i totalChunks =
     (if i < totalChunks then body i # chunk_loop body (i + 1) totalChunks else [])"
  by pat_completeness auto
termination
  by (relation "measure (\<lambda>(body, i, totalChunks). nat (totalChunks - i))") auto

declare chunk_loop.simps [simp del]

text \<open>
  \<^verbatim>\<open>
  generateManifest(url, totalSize, headers = {}, customChunkSize?) {
    const chunkSize = customChunkSize || this.chunkSize;
    const totalChunks = Math.ceil(totalSize / chunkSize);
    const chunks = [];
    for (let i = 0; i < totalChunks; i++) { ... chunks.push({index: i, start, end, size, url}) }
    return { url, totalSize, chunkSize, totalChunks, chunks, headers };
  }
  \<close>
  \<open>this_chunkSize\<close> is the manager's field; \<open>customChunkSize\<close> is \<open>None\<close> when the
  argument is omitted, and \<open>||\<close> also discards a given \<open>0\<close>
  (\<open>effectiveChunkSize\<close>). With a chunk size of
  \<open>0\<close> the quotient is infinite or not a number and there is no manifest over the
  integers: the model returns \<open>None\<close> there.
\<close>

definition effectiveChunkSize :: "int \<Rightarrow> int option \<Rightarrow> int" where
  "effectiveChunkSize this_chunkSize customChunkSize =
     (case customChunkSize of
        None \<Rightarrow> this_chunkSize
      | Some c \<Rightarrow> if c \<noteq> 0 then c else this_chunkSize)"

definition generateManifest ::
  "('h \<Rightarrow> string) \<Rightarrow> int \<Rightarrow> string \<Rightarrow> int \<Rightarrow> 'h \<Rightarrow> int option \<Rightarrow> 'h MP4Manifest option" where
  "generateManifest stringify this_chunkSize url totalSize headers customChunkSize =
     (let chunkSize = effectiveChunkSize this_chunkSize customChunkSize
      in if chunkSize = 0 then None
         else
           (let totalChunks = \<lceil>real_of_int totalSize / real_of_int chunkSize\<rceil>;
                chunks = chunk_loop (mk_chunk stringify url totalSize headers chunkSize) 0 totalChunks
            in Some \<lparr>manifest_url = url, manifest_totalSize = totalSize,
                     manifest_chunkSize = chunkSize, manifest_totalChunks = totalChunks,
                     manifest_chunks = chunks, manifest_headers = headers\<rparr>))"

definition DEFAULT_CHUNK_SIZE :: int where
  "DEFAULT_CHUNK_SIZE = 256 * 1024"

section \<open>Base64 (\<open>Buffer.from(s).toString('base64')\<close>)\<close>

definition b64_alphabet :: string where
  "b64_alphabet = ''ABCDEFGHIJKLMNOPQRSTUVWXYZabcdefghijklmnopqrstuvwxyz0123456789+/''"

definition b64_char :: "nat \<Rightarrow> char" where
  "b64_char n = b64_alphabet ! (n mod 64)"

fun index_of :: "'a list \<Rightarrow> 'a \<Rightarrow> nat" where
  "index_of [] x = 0"
| "index_of (y # ys) x = (if x = y then 0 else Suc (index_of ys x))"

definition b64_val :: "char \<Rightarrow> nat" where
  "b64_val c = index_of b64_alphabet c"

text \<open>The encoder: three bytes become four characters, the last group is padded with \<open>=\<close>.\<close>

fun base64 :: "string \<Rightarrow> string" where
  "base64 [] = []"
| "base64 [a] =
     (let x = (of_char a :: nat) in
      [b64_char (x div 4), b64_char ((x mod 4) * 16), CHR ''='', CHR ''=''])"
| "base64 [a, b] =
     (let x = (of_char a :: nat); y = (of_char b :: nat) in
      [b64_char (x div 4), b64_char ((x mod 4) * 16 + y div 16),
       b64_char ((y mod 16) * 4), CHR ''=''])"
| "base64 (a # b # c # rest) =
     (let x = (of_char a :: nat); y = (of_char b :: nat); z = (of_char c :: nat) in
      [b64_char (x div 4), b64_char ((x mod 4) * 16 + y div 16),
       b64_char ((y mod 16) * 4 + z div 64), b64_char (z mod 64)] @ base64 rest)"

text \<open>
  The decoder on canonical text (what the encoder writes): groups of four characters,
  padding only in the last group. The platform's decoder is lenient on other text (it
  skips white space and accepts the URL-safe alphabet); nothing below decodes such text.
\<close>

fun base64_decode :: "string \<Rightarrow> string" where
  "base64_decode (p # q # r # s # rest) =
     (let a = b64_val p; b = b64_val q; c = b64_val r; d = b64_val s in
      if r = CHR ''='' then [char_of (a * 4 + b div 16)]
      else if s = CHR ''='' then [char_of (a * 4 + b div 16), char_of ((b mod 16) * 16 + c div 4)]
      else [char_of (a * 4 + b div 16), char_of ((b mod 16) * 16 + c div 4),
            char_of ((c mod 4) * 64 + d)] @ base64_decode rest)"
| "base64_decode _ = []"

section \<open>Configuration\<close>

text \<open>
  The fields of \<open>config\<close> (read from \<open>config.json\<close>) that the cache code consults, and
  the process environment, which the MP4 route reads instead.
\<close>

record Config =
  DISABLE_CACHE :: bool
  ENABLE_REDIS :: bool

type_synonym env = "string \<rightharpoonup> string"

section \<open>Hot tier: the in-process \<open>segmentCache\<close> map\<close>

text \<open>
  \<open>interface CacheEntry { data: Uint8Array; headers: Record<string, string>; timestamp: number }\<close>;
  the MP4 route's entry has a further field \<open>range\<close>, an extension of the record. The
  header map is of no concern here and stays a type parameter.
\<close>

record 'h CacheEntry =
  data :: string
  headers :: 'h
  timestamp :: int

record 'h RangeCacheEntry = "'h CacheEntry" +
  entry_range :: string

text \<open>
  A script \<open>Map\<close> keeps its keys in insertion order, and that order decides ties when
  the sweep sorts by timestamp: the map is an association list with distinct keys.
  \<open>Map.set\<close> overwrites a present key in place and appends a new one; \<open>Map.delete\<close>
  removes the key; \<open>Map.size\<close> is the length.
\<close>

type_synonym 'e jsmap = "(string \<times> 'e) list"

definition Map_get :: "'e jsmap \<Rightarrow> string \<Rightarrow> 'e option" where
  "Map_get m k = map_of m k"

fun Map_set :: "string \<Rightarrow> 'e \<Rightarrow> 'e jsmap \<Rightarrow> 'e jsmap" where
  "Map_set k v [] = [(k, v)]"
| "Map_set k v (p # ps) = (if fst p = k then (k, v) # ps else p # Map_set k v ps)"

definition Map_delete :: "string \<Rightarrow> 'e jsmap \<Rightarrow> 'e jsmap" where
  "Map_delete k m = filter (\<lambda>p. fst p \<noteq> k) m"

definition Map_size :: "'e jsmap \<Rightarrow> int" where
  "Map_size m = int (length m)"

text \<open>
  \<^verbatim>\<open>
  function cleanupCache() {
    const now = Date.now();
    for (const [url, entry] of segmentCache.entries()) {
      if (now - entry.timestamp > CACHE_EXPIRY_MS) { segmentCache.delete(url); expiredCount++; }
    }
    if (segmentCache.size > CACHE_MAX_SIZE) {
      const entries = Array.from(segmentCache.entries())
        .sort((a, b) => a[1].timestamp - b[1].timestamp);
      const toRemove = entries.slice(0, segmentCache.size - CACHE_MAX_SIZE);
      for (const [url] of toRemove) { segmentCache.delete(url); }
    }
    return segmentCache.size;
  }
  \<close>
  The same text stands in the segment route and in the MP4 route, with different
  constants: they are the first two arguments. The clock reading \<open>now\<close> is an argument,
  the result is the map after the sweep. Deleting the entry under the iterator does not
  disturb the iteration; \<open>Array.prototype.sort\<close> is stable, as \<open>sort_key\<close> is.
\<close>

definition expired :: "int \<Rightarrow> int \<Rightarrow> ('h, 'x) CacheEntry_scheme \<Rightarrow> bool" where
  "expired expiry now entry \<longleftrightarrow> now - timestamp entry > expiry"

definition delete_expired :: "int \<Rightarrow> int \<Rightarrow> ('h, 'x) CacheEntry_scheme jsmap \<Rightarrow> ('h, 'x) CacheEntry_scheme jsmap" where
  "delete_expired expiry now m =
     fold (\<lambda>(url, entry) c. if expired expiry now entry then Map_delete url c else c) m m"

definition cleanupCache_with ::
  "int \<Rightarrow> int \<Rightarrow> int \<Rightarrow> ('h, 'x) CacheEntry_scheme jsmap \<Rightarrow> ('h, 'x) CacheEntry_scheme jsmap" where
  "cleanupCache_with maxSize expiry now segmentCache =
     (let c1 = delete_expired expiry now segmentCache in
      if Map_size c1 > maxSize then
        (let entries = sort_key (\<lambda>p. timestamp (snd p)) c1;
             toRemove = take (nat (Map_size c1 - maxSize)) entries
         in fold (\<lambda>(url, entry) c. Map_delete url c) toRemove c1)
      else c1)"

text \<open>The constants of the segment route (\<open>m3u8-proxy.ts\<close>) and of the MP4 route.\<close>

definition CACHE_MAX_SIZE :: int where
  "CACHE_MAX_SIZE = 2000"

definition CACHE_EXPIRY_MS :: int where
  "CACHE_EXPIRY_MS = 2 * 60 * 60 * 1000"

definition MP4_CACHE_MAX_SIZE :: int where
  "MP4_CACHE_MAX_SIZE = 500"

definition MP4_CACHE_EXPIRY_MS :: int where
  "MP4_CACHE_EXPIRY_MS = 4 * 60 * 60 * 1000"

definition cleanupCache :: "int \<Rightarrow> 'h CacheEntry jsmap \<Rightarrow> 'h CacheEntry jsmap" where
  "cleanupCache = cleanupCache_with CACHE_MAX_SIZE CACHE_EXPIRY_MS"

definition mp4_cleanupCache :: "int \<Rightarrow> 'h RangeCacheEntry jsmap \<Rightarrow> 'h RangeCacheEntry jsmap" where
  "mp4_cleanupCache = cleanupCache_with MP4_CACHE_MAX_SIZE MP4_CACHE_EXPIRY_MS"

text \<open>
  The two routes test different flags: the segment route \<open>config.DISABLE_CACHE\<close>, the
  MP4 route the environment variable (\<open>process.env.DISABLE_CACHE === 'true'\<close>).
\<close>

definition isCacheDisabled :: "Config \<Rightarrow> bool" where
  "isCacheDisabled config = DISABLE_CACHE config"

definition mp4_isCacheDisabled :: "env \<Rightarrow> bool" where
  "mp4_isCacheDisabled e \<longleftrightarrow> e ''DISABLE_CACHE'' = Some ''true''"

text \<open>
  \<^verbatim>\<open>
  export function getCachedSegment(url) {
    if (isCacheDisabled()) return undefined;
    const entry = segmentCache.get(url);
    if (entry) {
      if (Date.now() - entry.timestamp > CACHE_EXPIRY_MS) { segmentCache.delete(url); return undefined; }
      return entry;
    }
    return undefined;
  }
  \<close>
  The result is the entry found (\<open>None\<close> for \<open>undefined\<close>) and the map afterwards.
\<close>

definition getCachedSegment ::
  "Config \<Rightarrow> int \<Rightarrow> 'h CacheEntry jsmap \<Rightarrow> string \<Rightarrow> 'h CacheEntry option \<times> 'h CacheEntry jsmap" where
  "getCachedSegment config now segmentCache url =
     (if isCacheDisabled config then (None, segmentCache)
      else case Map_get segmentCache url of
             Some entry \<Rightarrow>
               if now - timestamp entry > CACHE_EXPIRY_MS then (None, Map_delete url segmentCache)
               else (Some entry, segmentCache)
           | None \<Rightarrow> (None, segmentCache))"

text \<open>
  \<open>getCachedChunk(url, range)\<close> of the MP4 route: the same, under the key
  \<open>`${url}:${range}`\<close>.
\<close>

definition getCachedChunk ::
  "env \<Rightarrow> int \<Rightarrow> 'h RangeCacheEntry jsmap \<Rightarrow> string \<Rightarrow> string
     \<Rightarrow> 'h RangeCacheEntry option \<times> 'h RangeCacheEntry jsmap" where
  "getCachedChunk e now segmentCache url range1 =
     (if mp4_isCacheDisabled e then (None, segmentCache)
      else
        (let cacheKey = url @ '':'' @ range1 in
         case Map_get segmentCache cacheKey of
           Some entry \<Rightarrow>
             if now - timestamp entry > MP4_CACHE_EXPIRY_MS then (None, Map_delete cacheKey segmentCache)
             else (Some entry, segmentCache)
         | None \<Rightarrow> (None, segmentCache)))"

text \<open>
  \<^verbatim>\<open>
  async function prefetchMP4Chunk(url, start, end, headers) {
    if (isCacheDisabled()) return;
    if (segmentCache.size >= CACHE_MAX_SIZE) cleanupCache();
    const range = `bytes=${start}-${end}`;
    const cacheKey = `${url}:${range}`;
    const existing = segmentCache.get(cacheKey);
    const now = Date.now();
    if (existing && (now - existing.timestamp <= CACHE_EXPIRY_MS)) return;
    try {
      const response = await globalThis.fetch(url, ...);
      if (!response.ok) return;
      const data = new Uint8Array(await response.arrayBuffer());
      ...
      segmentCache.set(cacheKey, { data, headers: responseHeaders, timestamp: Date.now(), range });
    } catch (error) { ... }
  }
  \<close>
  This is the only place that stores into a hot tier. The model is one call run to its
  end: the three clock readings are arguments (\<open>t_sweep\<close> inside \<open>cleanupCache\<close>,
  \<open>t_check\<close>, \<open>t_store\<close>), and so is the outcome of the fetch (\<open>None\<close> when it fails
  or throws, else the body and the response headers).
\<close>

definition prefetchMP4Chunk ::
  "env \<Rightarrow> int \<Rightarrow> int \<Rightarrow> int \<Rightarrow> string \<Rightarrow> int \<Rightarrow> int \<Rightarrow> (string \<times> 'h) option
     \<Rightarrow> 'h RangeCacheEntry jsmap \<Rightarrow> 'h RangeCacheEntry jsmap" where
  "prefetchMP4Chunk e t_sweep t_check t_store url start end1 fetched segmentCache =
     (if mp4_isCacheDisabled e then segmentCache
      else
        (let c1 = (if Map_size segmentCache \<ge> MP4_CACHE_MAX_SIZE
                   then mp4_cleanupCache t_sweep segmentCache else segmentCache);
             range1 = ''bytes='' @ show_int start @ ''-'' @ show_int end1;
             cacheKey = url @ '':'' @ range1;
             fresh = (case Map_get c1 cacheKey of
                        Some existing \<Rightarrow> t_check - timestamp existing \<le> MP4_CACHE_EXPIRY_MS
                      | None \<Rightarrow> False)
         in if fresh then c1
            else case fetched of
                   None \<Rightarrow> c1
                 | Some (body, responseHeaders) \<Rightarrow>
                     Map_set cacheKey
                       \<lparr>data = body, headers = responseHeaders, timestamp = t_store,
                        entry_range = range1\<rparr> c1))"

text \<open>
  A history of the MP4 hot tier: calls of \<open>prefetchMP4Chunk\<close> and runs of the periodic
  sweep (\<open>setInterval(cleanupCache, ...)\<close>), from the empty map the module starts with.
\<close>

datatype 'h hot_op =
  Prefetch int int int string int int "(string \<times> 'h) option"
| Sweep int

fun hot_step :: "env \<Rightarrow> 'h hot_op \<Rightarrow> 'h RangeCacheEntry jsmap \<Rightarrow> 'h RangeCacheEntry jsmap" where
  "hot_step e (Prefetch t_sweep t_check t_store url start end1 fetched) c =
     prefetchMP4Chunk e t_sweep t_check t_store url start end1 fetched c"
| "hot_step e (Sweep now) c = mp4_cleanupCache now c"

definition hot_run :: "env \<Rightarrow> 'h hot_op list \<Rightarrow> 'h RangeCacheEntry jsmap" where
  "hot_run e ops = fold (hot_step e) ops []"

section \<open>Warm tier: \<open>RedisCache\<close>\<close>

text \<open>
  \<open>interface CacheStorageFormat { data: string; headers; timestamp: number; version?: number }\<close>,
  the stored envelope; an absent \<open>version\<close> is \<open>None\<close>.
\<close>

record 'h CacheStorageFormat =
  stored_data :: string
  stored_headers :: 'h
  stored_timestamp :: int
  stored_version :: "int option"

text \<open>
  What the platform and its libraries supply: \<open>JSON.parse\<close> read at the type of the
  envelope (\<open>None\<close> when it throws, or when what it returns has no \<open>data\<close> string, on
  which \<open>Buffer.from\<close> throws next), \<open>JSON.stringify\<close>, \<open>gzip\<close>, \<open>gunzip\<close>
  (\<open>None\<close> when the promise rejects) and \<open>Buffer.from(s, 'base64')\<close>, which never
  throws on a string. They are parameters: every statement below holds for all of them.
\<close>

record 'h platform =
  JSON_parse :: "string \<Rightarrow> 'h CacheStorageFormat option"
  JSON_stringify :: "'h CacheStorageFormat \<Rightarrow> string"
  gzip :: "string \<Rightarrow> string"
  gunzip :: "string \<Rightarrow> string option"
  from_base64 :: "string \<Rightarrow> string"

text \<open>
  The fields of the \<open>RedisCache\<close> object that its methods read: whether \<open>client\<close> is
  set, \<open>isConnected\<close> and \<open>redisEnabled\<close>. The server's key space is a map from keys
  to the stored text with the time to live given to \<open>setEx\<close>. A command the server
  does not answer throws: \<open>cmd_ok\<close> says whether the command of this call succeeds.
\<close>

record RedisCache =
  has_client :: bool
  isConnected :: bool
  redisEnabled :: bool

type_synonym redis = "string \<rightharpoonup> (int \<times> string)"

definition CACHE_EXPIRY_SECONDS :: int where
  "CACHE_EXPIRY_SECONDS = 2 * 60 * 60"

definition getCacheKey :: "string \<Rightarrow> string" where
  "getCacheKey url = ''ts_segment:'' @ base64 url"

text \<open>
  \<^verbatim>\<open>
  async get(url) {
    if (!this.isConnected || !this.client) return null;
    try {
      const key = this.getCacheKey(url);
      const data = await this.client.get(key);
      if (!data) return null;
      const parsed = JSON.parse(data);
      const rawData = Buffer.from(parsed.data, 'base64');
      let finalData;
      if (parsed.version === 2) finalData = await gunzipAsync(rawData);
      else finalData = rawData;
      return { data: new Uint8Array(finalData), headers: parsed.headers, timestamp: parsed.timestamp };
    } catch (error) { return null; }
  }
  \<close>
\<close>

definition RedisCache_get ::
  "'h platform \<Rightarrow> RedisCache \<Rightarrow> bool \<Rightarrow> redis \<Rightarrow> string \<Rightarrow> 'h CacheEntry option" where
  "RedisCache_get P this cmd_ok server url =
     (if \<not> isConnected this \<or> \<not> has_client this then None
      else if \<not> cmd_ok then None
      else case server (getCacheKey url) of
             None \<Rightarrow> None
           | Some (ttl, text) \<Rightarrow>
               if text = [] then None
               else case JSON_parse P text of
                      None \<Rightarrow> None
                    | Some parsed \<Rightarrow>
                        (let rawData = from_base64 P (stored_data parsed) in
                         if stored_version parsed = Some 2 then
                           (case gunzip P rawData of
                              None \<Rightarrow> None
                            | Some finalData \<Rightarrow>
                                Some \<lparr>data = finalData, headers = stored_headers parsed,
                                      timestamp = stored_timestamp parsed\<rparr>)
                         else Some \<lparr>data = rawData, headers = stored_headers parsed,
                                    timestamp = stored_timestamp parsed\<rparr>))"

text \<open>
  \<^verbatim>\<open>
  async set(url, entry) {
    if (!this.isConnected || !this.client) return;
    try {
      const key = this.getCacheKey(url);
      const compressedData = await gzipAsync(Buffer.from(entry.data));
      const dataToStore = { data: compressedData.toString('base64'), headers: entry.headers,
                            timestamp: entry.timestamp, version: 2 };
      await this.client.setEx(key, this.CACHE_EXPIRY_SECONDS, JSON.stringify(dataToStore));
    } catch (error) { ... }
  }
  \<close>
  \<open>dataToStore\<close> is a function of its own, so that statements can speak of the envelope.
\<close>

definition dataToStore :: "'h platform \<Rightarrow> 'h CacheEntry \<Rightarrow> 'h CacheStorageFormat" where
  "dataToStore P entry =
     \<lparr>stored_data = base64 (gzip P (data entry)), stored_headers = headers entry,
      stored_timestamp = timestamp entry, stored_version = Some 2\<rparr>"

definition RedisCache_set ::
  "'h platform \<Rightarrow> RedisCache \<Rightarrow> bool \<Rightarrow> redis \<Rightarrow> string \<Rightarrow> 'h CacheEntry \<Rightarrow> redis" where
  "RedisCache_set P this cmd_ok server url entry =
     (if \<not> isConnected this \<or> \<not> has_client this then server
      else if \<not> cmd_ok then server
      else server(getCacheKey url \<mapsto> (CACHE_EXPIRY_SECONDS, JSON_stringify P (dataToStore P entry))))"

text \<open>
  \<^verbatim>\<open>
  async delete(url) {
    if (!this.isConnected || !this.client) return;
    try { await this.client.del(this.getCacheKey(url)); } catch (error) { ... }
  }
  isCacheDisabled() { return config.DISABLE_CACHE || !this.redisEnabled || !this.isConnected; }
  \<close>
\<close>

definition RedisCache_delete :: "RedisCache \<Rightarrow> bool \<Rightarrow> redis \<Rightarrow> string \<Rightarrow> redis" where
  "RedisCache_delete this cmd_ok server url =
     (if \<not> isConnected this \<or> \<not> has_client this then server
      else if \<not> cmd_ok then server
      else server(getCacheKey url := None))"

definition RedisCache_isCacheDisabled :: "Config \<Rightarrow> RedisCache \<Rightarrow> bool" where
  "RedisCache_isCacheDisabled config this \<longleftrightarrow>
     DISABLE_CACHE config \<or> \<not> redisEnabled this \<or> \<not> isConnected this"

text \<open>
  The segment route (\<open>s.ts\<close>) is the only caller of the warm tier. Its gate is
  \<open>const isCacheDisabled = () => DISABLE_TS_CACHE || config.DISABLE_CACHE || redisCache.isCacheDisabled()\<close>
  with \<open>DISABLE_TS_CACHE = false\<close>; the lookup is
  \<open>if (!isCacheDisabled()) { const cachedSegment = await redisCache.get(url); ... }\<close>
  and the store, after a fetch,
  \<open>if (!isCacheDisabled()) { redisCache.get(url).then(existing => { if (!existing) redisCache.set(url, ...) }) }\<close>.
\<close>

definition DISABLE_TS_CACHE :: bool where
  "DISABLE_TS_CACHE = False"

definition ts_isCacheDisabled :: "Config \<Rightarrow> RedisCache \<Rightarrow> bool" where
  "ts_isCacheDisabled config this \<longleftrightarrow>
     DISABLE_TS_CACHE \<or> DISABLE_CACHE config \<or> RedisCache_isCacheDisabled config this"

definition route_lookup ::
  "'h platform \<Rightarrow> Config \<Rightarrow> RedisCache \<Rightarrow> bool \<Rightarrow> redis \<Rightarrow> string \<Rightarrow> 'h CacheEntry option" where
  "route_lookup P config this cmd_ok server url =
     (if \<not> ts_isCacheDisabled config this then RedisCache_get P this cmd_ok server url else None)"

definition route_store ::
  "'h platform \<Rightarrow> Config \<Rightarrow> RedisCache \<Rightarrow> bool \<Rightarrow> bool \<Rightarrow> redis \<Rightarrow> string \<Rightarrow> 'h CacheEntry \<Rightarrow> redis" where
  "route_store P config this get_ok set_ok server url entry =
     (if \<not> ts_isCacheDisabled config this then
        (case RedisCache_get P this get_ok server url of
           None \<Rightarrow> RedisCache_set P this set_ok server url entry
         | Some existing \<Rightarrow> server)
      else server)"

section \<open>URL resolver (\<open>parseURL\<close>)\<close>

text \<open>
  The platform's \<open>URL\<close> class is a parameter: \<open>U r None\<close> is \<open>new URL(r)\<close> and
  \<open>U r (Some b)\<close> is \<open>new URL(r, b)\<close>, each with the two properties the code reads;
  \<open>None\<close> stands for the \<open>TypeError\<close> the constructor throws on what it cannot parse.
\<close>

record URL =
  href :: string
  hostname :: string

type_synonym url_ctor = "string \<Rightarrow> string option \<Rightarrow> URL option"

datatype js_error = TypeError

text \<open>
  Matching without regard to case, as the flag \<open>i\<close> asks for, concerns ASCII letters
  only here: no other character is equal to one of \<open>h t p s\<close> after case folding.
\<close>

definition to_lower :: "char \<Rightarrow> char" where
  "to_lower c =
     (if c \<in> set ''ABCDEFGHIJKLMNOPQRSTUVWXYZ'' then char_of (of_char c + (32::nat)) else c)"

fun strip_prefix_ci :: "string \<Rightarrow> string \<Rightarrow> string option" where
  "strip_prefix_ci [] s = Some s"
| "strip_prefix_ci (c # p) [] = None"
| "strip_prefix_ci (c # p) (d # s) = (if to_lower d = c then strip_prefix_ci p s else None)"

text \<open>\<open>/^https?:/i.test(req_url)\<close>.\<close>

definition declares_scheme :: "string \<Rightarrow> bool" where
  "declares_scheme s \<longleftrightarrow>
     strip_prefix_ci ''https:'' s \<noteq> None \<or> strip_prefix_ci ''http:'' s \<noteq> None"

text \<open>
  The match of
  \<open>/^(?:(https?:)?\/\/)?(([^\/?]+?)(?::(\d{0,5})(?=[\/?]|$))?)([\/?][\S\s]*|$)/i\<close>;
  the code reads the groups 1 and 4 only, and the result here is that pair.

  \<^item> Groups 2 to 5 start at some position and need what follows it up to the first
    \<open>/\<close> or \<open>?\<close> (or the end) to be non-empty: that part is \<open>authority\<close>.
  \<^item> Group 3 is lazy: it is the shortest non-empty prefix of the authority after which
    \<open>:\<close> and at most five digits reach the end of the authority; group 4 is those
    digits. When there is no such prefix, group 3 is the whole authority and group 4 is
    undefined (\<open>port_group\<close>).
  \<^item> The optional first part is tried in the order of the backtracking matcher: with a
    scheme and \<open>//\<close>, then \<open>//\<close> alone, then nothing (\<open>url_match\<close>). A scheme that
    is not followed by \<open>//\<close> and a non-empty authority is not captured.
\<close>

definition authority :: "string \<Rightarrow> string" where
  "authority s = takeWhile (\<lambda>c. c \<noteq> CHR ''/'' \<and> c \<noteq> CHR ''?'') s"

fun port_tail :: "string \<Rightarrow> string option" where
  "port_tail [] = None"
| "port_tail (c # t) =
     (if c = CHR '':'' \<and> list_all is_digit t \<and> length t \<le> 5 then Some t else port_tail t)"

definition port_group :: "string \<Rightarrow> string option" where
  "port_group auth = (case auth of [] \<Rightarrow> None | c # t \<Rightarrow> port_tail t)"

text \<open>The port of a written \<open>:port\<close> part, \<open>None\<close> when the part is empty.\<close>

definition written_port :: "string \<Rightarrow> string option" where
  "written_port pp = (case pp of [] \<Rightarrow> None | c # p \<Rightarrow> Some p)"

definition scheme_prefix :: "string \<Rightarrow> (string \<times> string) option" where
  "scheme_prefix s =
     (case strip_prefix_ci ''https:'' s of
        Some r \<Rightarrow> Some (take 6 s, r)
      | None \<Rightarrow>
          (case strip_prefix_ci ''http:'' s of
             Some r \<Rightarrow> Some (take 5 s, r)
           | None \<Rightarrow> None))"

definition match_from :: "string option \<Rightarrow> string \<Rightarrow> (string option \<times> string option) option" where
  "match_from scheme r =
     (if authority r = [] then None else Some (scheme, port_group (authority r)))"

definition url_match :: "string \<Rightarrow> (string option \<times> string option) option" where
  "url_match s =
     (let with_scheme =
            (case scheme_prefix s of
               None \<Rightarrow> None
             | Some (scheme, r) \<Rightarrow>
                 (case strip_prefix ''//'' r of
                    None \<Rightarrow> None
                  | Some r' \<Rightarrow> match_from (Some scheme) r'));
          with_slashes =
            (case strip_prefix ''//'' s of
               None \<Rightarrow> None
             | Some r' \<Rightarrow> match_from None r')
      in case with_scheme of
           Some m \<Rightarrow> Some m
         | None \<Rightarrow> (case with_slashes of Some m \<Rightarrow> Some m | None \<Rightarrow> match_from None s))"

text \<open>
  \<^verbatim>\<open>
  function parseURL(req_url, baseUrl) {
    if (baseUrl) return new URL(req_url, baseUrl).href;
    const match = req_url.match(/^(?:(https?:)?\/\/)?(...)/i);
    if (!match) return null;
    if (!match[1]) {
      if (/^https?:/i.test(req_url)) return null;
      if (req_url.lastIndexOf("//", 0) === -1) req_url = "//" + req_url;
      req_url = (match[4] === "443" ? "https:" : "http:") + req_url;
    }
    try {
      const parsed = new URL(req_url);
      if (!parsed.hostname) return null;
      return parsed.href;
    } catch (error) { return null; }
  }
  \<close>
  A base that is absent or the empty string is falsy. With a base the constructor is
  called outside the \<open>try\<close>: its exception leaves \<open>parseURL\<close> (\<open>Inl TypeError\<close>).
  \<open>inferred\<close> is the string the scheme-less branch hands to the constructor.
\<close>

definition inferred :: "string option \<Rightarrow> string \<Rightarrow> string" where
  "inferred port req_url =
     (if port = Some ''443'' then ''https:'' else ''http:'')
       @ (if startsWith req_url ''//'' then req_url else ''//'' @ req_url)"

definition parse_strict :: "url_ctor \<Rightarrow> string \<Rightarrow> string option" where
  "parse_strict U req_url =
     (case U req_url None of
        None \<Rightarrow> None
      | Some parsed \<Rightarrow> if hostname parsed = [] then None else Some (href parsed))"

definition parseURL :: "url_ctor \<Rightarrow> string \<Rightarrow> string option \<Rightarrow> js_error + string option" where
  "parseURL U req_url baseUrl =
     (if baseUrl \<noteq> None \<and> baseUrl \<noteq> Some [] then
        (case U req_url baseUrl of
           None \<Rightarrow> Inl TypeError
         | Some u \<Rightarrow> Inr (Some (href u)))
      else
        (case url_match req_url of
           None \<Rightarrow> Inr None
         | Some (scheme, port) \<Rightarrow>
             if scheme = None then
               (if declares_scheme req_url then Inr None
                else Inr (parse_strict U (inferred port req_url)))
             else Inr (parse_strict U req_url)))"

section \<open>Playlist rewrite (\<open>proxyM3U8\<close>)\<close>

text \<open>
  White space as \<open>String.prototype.trim\<close> and the class \<open>\s\<close> know it, each code point
  in UTF-8: tab, line feed, vertical tab, form feed, carriage return, space, U+00A0,
  U+1680, U+2000 to U+200A, U+2028, U+2029, U+202F, U+205F, U+3000 and U+FEFF.
  \<open>ws_rest s\<close> is what follows one white-space code point at the head of \<open>s\<close>.
\<close>

definition ws_codes :: "string list" where
  "ws_codes =
     [[CHR 0x09], [CHR 0x0A], [CHR 0x0B], [CHR 0x0C], [CHR 0x0D], [CHR 0x20],
      [CHR 0xC2, CHR 0xA0], [CHR 0xE1, CHR 0x9A, CHR 0x80],
      [CHR 0xE2, CHR 0x80, CHR 0x80], [CHR 0xE2, CHR 0x80, CHR 0x81],
      [CHR 0xE2, CHR 0x80, CHR 0x82], [CHR 0xE2, CHR 0x80, CHR 0x83],
      [CHR 0xE2, CHR 0x80, CHR 0x84], [CHR 0xE2, CHR 0x80, CHR 0x85],
      [CHR 0xE2, CHR 0x80, CHR 0x86], [CHR 0xE2, CHR 0x80, CHR 0x87],
      [CHR 0xE2, CHR 0x80, CHR 0x88], [CHR 0xE2, CHR 0x80, CHR 0x89],
      [CHR 0xE2, CHR 0x80, CHR 0x8A], [CHR 0xE2, CHR 0x80, CHR 0xA8],
      [CHR 0xE2, CHR 0x80, CHR 0xA9], [CHR 0xE2, CHR 0x80, CHR 0xAF],
      [CHR 0xE2, CHR 0x81, CHR 0x9F], [CHR 0xE3, CHR 0x80, CHR 0x80],
      [CHR 0xEF, CHR 0xBB, CHR 0xBF]]"

fun first_rest :: "string list \<Rightarrow> string \<Rightarrow> string option" where
  "first_rest [] s = None"
| "first_rest (p # ps) s =
     (case strip_prefix p s of Some r \<Rightarrow> Some r | None \<Rightarrow> first_rest ps s)"

definition ws_rest :: "string \<Rightarrow> string option" where
  "ws_rest s = first_rest ws_codes s"

text \<open>\<open>blank line\<close> says that \<open>line.trim()\<close> is the empty string. The fuel is the length.\<close>

fun blank_upto :: "nat \<Rightarrow> string \<Rightarrow> bool" where
  "blank_upto 0 s = (s = [])"
| "blank_upto (Suc n) s =
     (s = [] \<or> (case ws_rest s of None \<Rightarrow> False | Some r \<Rightarrow> blank_upto n r))"

definition blank :: "string \<Rightarrow> bool" where
  "blank s = blank_upto (length s) s"

text \<open>\<open>s.includes(p)\<close>.\<close>

fun includes_str :: "string \<Rightarrow> string \<Rightarrow> bool" where
  "includes_str [] p = (p = [])"
| "includes_str (c # s) p = (startsWith (c # s) p \<or> includes_str s p)"

text \<open>\<open>s.split("\n")\<close> and \<open>lines.join("\n")\<close>.\<close>

fun split_nl :: "string \<Rightarrow> string list" where
  "split_nl [] = [[]]"
| "split_nl (c # s) =
     (if c = CHR 0x0A then [] # split_nl s
      else (case split_nl s of [] \<Rightarrow> [[c]] | l # ls \<Rightarrow> (c # l) # ls))"

fun join_nl :: "string list \<Rightarrow> string" where
  "join_nl [] = []"
| "join_nl [l] = l"
| "join_nl (l # ls) = l @ CHR 0x0A # join_nl ls"

text \<open>
  The first match of \<open>/https?:\/\/[^\""\s]+/\<close> in a line (\<open>regex.exec(line)?.[0]\<close>, from
  index 0): at the leftmost position where \<open>http://\<close> or \<open>https://\<close> stands before at
  least one character that is neither a double quote nor white space, the scheme and the
  longest run of such characters.
\<close>

fun url_chars :: "string \<Rightarrow> string" where
  "url_chars [] = []"
| "url_chars (c # s) =
     (if c = CHR 0x22 \<or> ws_rest (c # s) \<noteq> None then [] else c # url_chars s)"

definition url_here :: "string \<Rightarrow> string option" where
  "url_here s =
     (case strip_prefix ''https://'' s of
        Some r \<Rightarrow> if url_chars r = [] then None else Some (''https://'' @ url_chars r)
      | None \<Rightarrow>
          (case strip_prefix ''http://'' s of
             Some r \<Rightarrow> if url_chars r = [] then None else Some (''http://'' @ url_chars r)
           | None \<Rightarrow> None))"

fun find_url :: "string \<Rightarrow> string option" where
  "find_url [] = None"
| "find_url (c # s) =
     (case url_here (c # s) of Some m \<Rightarrow> Some m | None \<Rightarrow> find_url s)"

text \<open>
  \<open>line.replace(pattern, replacement)\<close> with two strings: the first occurrence of the
  pattern is replaced. In the replacement \<open>$$\<close> stands for \<open>$\<close>, \<open>$&\<close> for the match,
  \<open>$`\<close> for what precedes it and \<open>$'\<close> for what follows (\<open>expand\<close>).
\<close>

fun expand :: "string \<Rightarrow> string \<Rightarrow> string \<Rightarrow> string \<Rightarrow> string" where
  "expand pre matched post [] = []"
| "expand pre matched post [c] = [c]"
| "expand pre matched post (c # d # r) =
     (if c = CHR ''$'' \<and> d = CHR ''$'' then CHR ''$'' # expand pre matched post r
      else if c = CHR ''$'' \<and> d = CHR ''&'' then matched @ expand pre matched post r
      else if c = CHR ''$'' \<and> d = CHR 0x60 then pre @ expand pre matched post r
      else if c = CHR ''$'' \<and> d = CHR 0x27 then post @ expand pre matched post r
      else c # expand pre matched post (d # r))"

fun replace_at :: "string \<Rightarrow> string \<Rightarrow> string \<Rightarrow> string \<Rightarrow> string" where
  "replace_at pre [] pat rep = (if pat = [] then pre @ expand pre [] [] rep else pre)"
| "replace_at pre (c # s) pat rep =
     (case strip_prefix pat (c # s) of
        Some post \<Rightarrow> pre @ expand pre pat post rep @ post
      | None \<Rightarrow> replace_at (pre @ [c]) s pat rep)"

definition js_replace :: "string \<Rightarrow> string \<Rightarrow> string \<Rightarrow> string" where
  "js_replace line pat rep = replace_at [] line pat rep"

text \<open>
  The proxy URL
  \<open>`${selectedUrl}?u=${encodedUrl}&headers=${encodeURIComponent(JSON.stringify(headers))}&lb=${lbChoice}`\<close>
  with \<open>selectedUrl = '/s'\<close> and \<open>lbChoice = 'local'\<close>; \<open>headersJson\<close> is the text
  \<open>JSON.stringify(headers)\<close>.
\<close>

definition proxy_url :: "string \<Rightarrow> string \<Rightarrow> string" where
  "proxy_url headersJson target =
     ''/s'' @ ''?u='' @ base64 target @ ''&headers='' @ encodeURIComponent headersJson
       @ ''&lb='' @ ''local''"

text \<open>
  The treatment of one line, first what both kinds of playlist do with a tag that
  carries a URL (\<open>#EXT-X-KEY:\<close>, and \<open>#EXT-X-MEDIA:\<close> in a master playlist), then the
  body of the loop \<open>for (const line of lines)\<close>. \<open>master\<close> says which of the two loops
  it is. An exception of \<open>parseURL\<close> leaves the loop.
\<close>

definition rewrite_tag :: "string \<Rightarrow> string \<Rightarrow> string" where
  "rewrite_tag headersJson line =
     (case find_url line of
        Some keyUrl \<Rightarrow> js_replace line keyUrl (proxy_url headersJson keyUrl)
      | None \<Rightarrow> line)"

definition rewrite_line :: "url_ctor \<Rightarrow> bool \<Rightarrow> string \<Rightarrow> string \<Rightarrow> string \<Rightarrow> js_error + string" where
  "rewrite_line U master headersJson url line =
     (if startsWith line ''#'' then
        (if startsWith line ''#EXT-X-KEY:'' then Inr (rewrite_tag headersJson line)
         else if master \<and> startsWith line ''#EXT-X-MEDIA:'' then Inr (rewrite_tag headersJson line)
         else Inr line)
      else if \<not> blank line then
        (case parseURL U line (Some url) of
           Inl e \<Rightarrow> Inl e
         | Inr None \<Rightarrow> Inr line
         | Inr (Some segmentUrl) \<Rightarrow>
             if segmentUrl = [] then Inr line else Inr (proxy_url headersJson segmentUrl))
      else Inr line)"

fun rewrite_lines :: "(string \<Rightarrow> js_error + string) \<Rightarrow> string list \<Rightarrow> js_error + string list" where
  "rewrite_lines f [] = Inr []"
| "rewrite_lines f (line # lines) =
     (case f line of
        Inl e \<Rightarrow> Inl e
      | Inr new \<Rightarrow> (case rewrite_lines f lines of Inl e \<Rightarrow> Inl e | Inr news \<Rightarrow> Inr (new # news)))"

text \<open>
  The part of \<open>proxyM3U8\<close> after the fetch: from the text of the manifest to the text
  returned, or to the exception that the handler's \<open>catch\<close> turns into a 500 response.
\<close>

definition rewritePlaylist :: "url_ctor \<Rightarrow> string \<Rightarrow> string \<Rightarrow> string \<Rightarrow> js_error + string" where
  "rewritePlaylist U headersJson url m3u8Content =
     (let master = includes_str m3u8Content ''RESOLUTION='';
          lines = split_nl m3u8Content
      in case rewrite_lines (rewrite_line U master headersJson url) lines of
           Inl e \<Rightarrow> Inl e
         | Inr newLines \<Rightarrow> Inr (join_nl newLines))"

text \<open>
  The value of the parameter \<open>u\<close> of a proxy URL, as it is written: the text between
  \<open>?u=\<close> and the next \<open>&\<close>.
\<close>

definition query_u :: "string \<Rightarrow> string option" where
  "query_u link =
     (case strip_prefix ''?u='' (dropWhile (\<lambda>c. c \<noteq> CHR ''?'') link) of
        None \<Rightarrow> None
      | Some r \<Rightarrow> Some (takeWhile (\<lambda>c. c \<noteq> CHR ''&'') r))"

text \<open>The characters that matter to a line and to a replacement text: no line feed, no \<open>$\<close>.\<close>

definition plain :: "char \<Rightarrow> bool" where
  "plain c \<longleftrightarrow> c \<noteq> CHR 0x0A \<and> c \<noteq> CHR ''$''"

section \<open>Concrete inputs\<close>

text \<open>
  A history that fills the MP4 hot tier: \<open>n\<close> prefetches of the first 10 MB window of
  \<open>n\<close> different URLs, every fetch successful, all at clock reading \<open>1000\<close>.
\<close>

definition fill_url :: "nat \<Rightarrow> string" where
  "fill_url i = ''http://host/v.mp4?'' @ replicate i CHR ''a''"

definition fill_ops :: "nat \<Rightarrow> unit hot_op list" where
  "fill_ops n =
     map (\<lambda>i. Prefetch 1000 1000 1000 (fill_url i) 0 10485759 (Some (''x'', ()))) [0..<n]"

definition fill_entry :: "nat \<Rightarrow> string \<times> unit RangeCacheEntry" where
  "fill_entry i =
     (fill_url i @ '':'' @ ''bytes='' @ show_int 0 @ ''-'' @ show_int 10485759,
      \<lparr>data = ''x'', headers = (), timestamp = 1000,
       entry_range = ''bytes='' @ show_int 0 @ ''-'' @ show_int 10485759\<rparr>)"

text \<open>
  An instance of the platform for the closed examples: it reads two stored texts, a
  legacy envelope whose payload is the base64 text of \<open>hi\<close> and a version 2 envelope;
  its \<open>gzip\<close> only puts the two magic bytes of the format in front, and \<open>gunzip\<close>
  takes them off. The theorems hold for every platform.
\<close>

definition legacy_text :: string where
  \<open>legacy_text = ''{"data":"aGk=","headers":{},"timestamp":0}''\<close>

definition v2_text :: string where
  \<open>v2_text = ''{"data":"H4toaQ==","headers":{},"timestamp":0,"version":2}''\<close>

definition demo_platform :: "unit platform" where
  "demo_platform =
     \<lparr>JSON_parse = map_of
        [(legacy_text, \<lparr>stored_data = ''aGk='', stored_headers = (), stored_timestamp = 0,
                        stored_version = None\<rparr>),
         (v2_text, \<lparr>stored_data = ''H4toaQ=='', stored_headers = (), stored_timestamp = 0,
                    stored_version = Some 2\<rparr>)],
      JSON_stringify = (\<lambda>env. v2_text),
      gzip = (\<lambda>b. CHR 0x1F # CHR 0x8B # b),
      gunzip = strip_prefix [CHR 0x1F, CHR 0x8B],
      from_base64 = base64_decode\<rparr>"

definition demo_redis :: RedisCache where
  "demo_redis = \<lparr>has_client = True, isConnected = True, redisEnabled = True\<rparr>"

definition demo_server :: redis where
  "demo_server =
     [getCacheKey ''http://host/a/seg1.ts'' \<mapsto> (7200, legacy_text),
      getCacheKey ''http://host/a/seg2.ts'' \<mapsto> (7200, v2_text)]"

text \<open>
  An excerpt of the platform's \<open>URL\<close> constructor for the closed examples: what it
  returns for a few references, with the base \<open>http://host/a/index.m3u8\<close> and without
  a base. A reference that is only white space resolves to the base itself. A host with
  a space in it is refused by the platform; so are \<open>http://a b/\<close> and
  \<open>http://a b/seg1.ts\<close>, which are not in the excerpt. Outside the excerpt the function
  refuses as well, and no statement relies on that for any other reference.
\<close>

definition demo_base :: string where
  "demo_base = ''http://host/a/index.m3u8''"

definition demo_URL :: url_ctor where
  "demo_URL r b =
     (if b = Some demo_base then
        map_of
          [(''seg1.ts'', \<lparr>href = ''http://host/a/seg1.ts'', hostname = ''host''\<rparr>),
           (''seg2.ts'', \<lparr>href = ''http://host/a/seg2.ts'', hostname = ''host''\<rparr>),
           ([CHR 0x0D], \<lparr>href = ''http://host/a/index.m3u8'', hostname = ''host''\<rparr>)] r
      else if b = None then
        map_of
          [(''https://example.com:443/path'', \<lparr>href = ''https://example.com/path'', hostname = ''example.com''\<rparr>),
           (''http://example.com:8080/path'', \<lparr>href = ''http://example.com:8080/path'', hostname = ''example.com''\<rparr>),
           (''http://example.com/path'', \<lparr>href = ''http://example.com/path'', hostname = ''example.com''\<rparr>)] r
      else None)"

text \<open>
  The media playlist of the specification's scenario and its rewrite, a playlist with
  CRLF line ends whose second line is blank (it holds the carriage return), and a
  playlist with a segment URI whose host has a space in it.
\<close>

definition scenario_playlist :: string where
  "scenario_playlist = ''#EXTM3U\<newline>#EXTINF:10,\<newline>seg1.ts\<newline>#EXTINF:10,\<newline>seg2.ts\<newline>''"

definition scenario_rewritten :: string where
  "scenario_rewritten =
     ''#EXTM3U\<newline>#EXTINF:10,\<newline>/s?u=aHR0cDovL2hvc3QvYS9zZWcxLnRz&headers=%7B%7D&lb=local\<newline>#EXTINF:10,\<newline>/s?u=aHR0cDovL2hvc3QvYS9zZWcyLnRz&headers=%7B%7D&lb=local\<newline>''"

definition crlf_playlist :: string where
  "crlf_playlist = ''#EXTM3U'' @ [CHR 0x0D, CHR 0x0A, CHR 0x0D, CHR 0x0A]"

definition bad_host_playlist :: string where
  "bad_host_playlist = ''#EXTM3U\<newline>http://a b/seg1.ts\<newline>''"

section \<open>Verification: the range parser\<close>

lemma strip_prefix_Some: "strip_prefix p s = Some t \<longleftrightarrow> s = p @ t"
  by (induction p s rule: strip_prefix.induct) auto

lemma strip_prefix_append [simp]: "strip_prefix p (p @ t) = Some t"
  by (simp add: strip_prefix_Some)

lemma range_match_form:
  assumes "list_all is_digit a" "list_all is_digit b"
  shows "range_match (''bytes='' @ a @ ''-'' @ b) = Some (a, b)"
proof -
  have nd: "\<not> is_digit CHR ''-''" by (simp add: is_digit_def)
  have tw: "takeWhile is_digit (a @ CHR ''-'' # b) = a"
    using assms(1) nd by (simp add: list_all_iff)
  have dw: "dropWhile is_digit (a @ CHR ''-'' # b) = CHR ''-'' # b"
    using assms(1) nd by (simp add: list_all_iff)
  have "strip_prefix ''bytes='' (''bytes='' @ a @ ''-'' @ b) = Some (a @ ''-'' @ b)"
    by (rule strip_prefix_append)
  then show ?thesis using assms(2) tw dw by (simp add: range_match_def)
qed

lemma range_match_Some:
  assumes "range_match h = Some (a, b)"
  shows "list_all is_digit a \<and> list_all is_digit b \<and> h = ''bytes='' @ a @ ''-'' @ b"
proof -
  from assms obtain r where sp: "strip_prefix ''bytes='' h = Some r"
    by (auto simp: range_match_def split: option.splits)
  then have h: "h = ''bytes='' @ r" by (simp only: strip_prefix_Some)
  from assms sp have dw: "dropWhile is_digit r = CHR ''-'' # b" and a: "a = takeWhile is_digit r"
    and b: "list_all is_digit b"
    by (auto simp: range_match_def Let_def split: if_splits list.splits)
  have "r = takeWhile is_digit r @ dropWhile is_digit r" by simp
  with dw a have r: "r = a @ CHR ''-'' # b" by simp
  have "list_all is_digit a" unfolding a list_all_iff by (auto dest: set_takeWhileD)
  with b h r show ?thesis by simp
qed

lemma range_match_None: "\<not> single_form h \<Longrightarrow> range_match h = None"
proof (rule ccontr)
  assume ns: "\<not> single_form h" and "range_match h \<noteq> None"
  then obtain a b where "range_match h = Some (a, b)" by auto
  from range_match_Some[OF this] ns show False unfolding single_form_def by blast
qed

lemma single_form_no_comma:
  assumes "single_form h" shows "CHR '','' \<notin> set h"
proof -
  from assms obtain a b where a: "list_all is_digit a" and b: "list_all is_digit b"
    and h: "h = ''bytes='' @ a @ ''-'' @ b" unfolding single_form_def by blast
  have nd: "\<not> is_digit CHR '',''" by (simp add: is_digit_def)
  from a nd have "CHR '','' \<notin> set a" by (auto simp: list_all_iff)
  moreover from b nd have "CHR '','' \<notin> set b" by (auto simp: list_all_iff)
  ultimately show ?thesis unfolding h by simp
qed

text \<open>
  Claim C1. For every content length \<open>L > 0\<close> the range parser follows the reference
  definition: \<open>bytes=N-M\<close> gives the window \<open>(N, M)\<close>, \<open>bytes=N-\<close> gives
  \<open>(N, L - 1)\<close>, \<open>bytes=-M\<close> gives \<open>(max 0 (L - M), L - 1)\<close>, each returned
  unless the window is invalid (\<open>start \<ge> L\<close>, \<open>end \<ge> L\<close> or \<open>start > end\<close>),
  in which case the result is \<open>null\<close>; a header that is not of the single form
  \<open>bytes=<digits?>-<digits?>\<close> gives \<open>null\<close>, and so does every multi-range header
  \<open>bytes=a-b,c-d\<close>.
\<close>

theorem parseRangeHeader_reference:
  assumes "0 < L"
    and "list_all is_digit N" "N \<noteq> []" "list_all is_digit M" "M \<noteq> []"
  shows "parseRangeHeader (''bytes='' @ N @ ''-'' @ M) L = validated L (parseInt N, parseInt M)
    \<and> parseRangeHeader (''bytes='' @ N @ ''-'') L = validated L (parseInt N, L - 1)
    \<and> parseRangeHeader (''bytes=-'' @ M) L = validated L (max 0 (L - parseInt M), L - 1)
    \<and> (\<not> single_form h \<longrightarrow> parseRangeHeader h L = None)
    \<and> parseRangeHeader (''bytes='' @ a @ ''-'' @ b @ '','' @ c @ ''-'' @ d) L = None"
proof (intro conjI impI)
  show "parseRangeHeader (''bytes='' @ N @ ''-'' @ M) L = validated L (parseInt N, parseInt M)"
    using assms range_match_form[of N M]
    by (simp add: parseRangeHeader_def validated_def Let_def)
  show "parseRangeHeader (''bytes='' @ N @ ''-'') L = validated L (parseInt N, L - 1)"
    using assms range_match_form[of N "[]"]
    by (simp add: parseRangeHeader_def validated_def Let_def)
  show "parseRangeHeader (''bytes=-'' @ M) L = validated L (max 0 (L - parseInt M), L - 1)"
    using assms range_match_form[of "[]" M]
    by (simp add: parseRangeHeader_def validated_def Let_def)
  show "parseRangeHeader h L = None" if "\<not> single_form h"
    using range_match_None[OF that] by (simp add: parseRangeHeader_def)
  have "\<not> single_form (''bytes='' @ a @ ''-'' @ b @ '','' @ c @ ''-'' @ d)"
    using single_form_no_comma[of "''bytes='' @ a @ ''-'' @ b @ '','' @ c @ ''-'' @ d"] by auto
  from range_match_None[OF this]
  show "parseRangeHeader (''bytes='' @ a @ ''-'' @ b @ '','' @ c @ ''-'' @ d) L = None"
    by (simp add: parseRangeHeader_def)
qed

theorem parseRangeHeader_reference_witness:
  "parseRangeHeader ''bytes=0-99'' 1000 = Some (0, 99)
   \<and> parseRangeHeader ''bytes=0-'' 1000 = Some (0, 999)
   \<and> parseRangeHeader ''bytes=-99'' 1000 = Some (901, 999)
   \<and> parseRangeHeader ''items=0-99'' 1000 = None
   \<and> parseRangeHeader ''bytes=0-99,200-299'' 1000 = None"
proof -
  have ns: "\<not> single_form ''items=0-99''" by (simp add: single_form_def)
  show ?thesis
    using ns parseRangeHeader_reference [of 1000 "''0''" "''99''" "''items=0-99''" "''0''" "''99''" "''200''" "''299''"]
    by (simp add: validated_def parseInt_def digit_val_def is_digit_def)
qed

text \<open>
  Claim C10. For every content length \<open>L \<ge> 1\<close> the header \<open>bytes=-\<close>, with both
  bounds empty, is answered with the full window \<open>(0, L - 1)\<close> and not with
  \<open>null\<close>: the empty start defaults to \<open>0\<close>, the empty end to \<open>L - 1\<close>, and
  the suffix branch needs a non-empty end.
\<close>

theorem parseRangeHeader_both_empty:
  "1 \<le> L \<Longrightarrow> parseRangeHeader ''bytes=-'' L = Some (0, L - 1)"
  by (simp add: parseRangeHeader_def range_match_def is_digit_def)

theorem parseRangeHeader_both_empty_witness:
  "(1::int) \<le> 1000 \<and> parseRangeHeader ''bytes=-'' 1000 = Some (0, 999)"
  using parseRangeHeader_both_empty [of 1000] by simp

section \<open>Verification: the chunk manifest\<close>

lemma chunk_loop_length: "length (chunk_loop body i n) = nat (n - i)"
proof (induction body i n rule: chunk_loop.induct)
  case (1 body i n)
  show ?case
  proof (cases "i < n")
    case True
    with 1 show ?thesis by (subst chunk_loop.simps) (simp add: Suc_nat_eq_nat_zadd1 nat_diff_distrib)
  next
    case False
    then show ?thesis by (subst chunk_loop.simps) simp
  qed
qed

lemma chunk_loop_nth: "k < nat (n - i) \<Longrightarrow> chunk_loop body i n ! k = body (i + int k)"
proof (induction body i n arbitrary: k rule: chunk_loop.induct)
  case (1 body i n)
  from "1.prems" have lt: "i < n" by simp
  show ?case
  proof (cases k)
    case 0
    with lt show ?thesis by (subst chunk_loop.simps) simp
  next
    case (Suc k')
    with "1.prems" have "k' < nat (n - (i + 1))" by simp
    from "1.IH"[OF lt this] Suc lt show ?thesis
      by (subst chunk_loop.simps) (simp add: algebra_simps)
  qed
qed

lemma ceiling_bounds:
  fixes T c :: int
  assumes "0 < T" "0 < c"
  defines "n \<equiv> \<lceil>real_of_int T / real_of_int c\<rceil>"
  shows "1 \<le> n" and "(n - 1) * c < T" and "T \<le> n * c"
proof -
  have cpos: "0 < real_of_int c" using assms by simp
  have "0 < real_of_int T / real_of_int c" using assms by simp
  then have "0 < n" unfolding n_def by (simp add: ceiling_less_iff[symmetric] less_ceiling_iff)
  then show "1 \<le> n" by simp
  have "(of_int n - 1) * real_of_int c < real_of_int T"
    unfolding n_def using ceiling_divide_lower[OF cpos] by blast
  then have "real_of_int ((n - 1) * c) < real_of_int T" by simp
  then show "(n - 1) * c < T" by (simp only: of_int_less_iff)
  have "real_of_int T \<le> of_int n * real_of_int c"
    unfolding n_def using ceiling_divide_upper[OF cpos] by blast
  then have "real_of_int T \<le> real_of_int (n * c)" by simp
  then show "T \<le> n * c" by (simp only: of_int_le_iff)
qed

text \<open>
  Claim C6. For \<open>totalSize > 0\<close> and an effective chunk size \<open>chunkSize > 0\<close> the
  manifest exists, has \<open>totalChunks = ceil (totalSize / chunkSize)\<close> descriptors, the
  descriptor at position \<open>i\<close> has index \<open>i\<close>, \<open>start = i * chunkSize\<close>,
  \<open>end = min ((i + 1) * chunkSize - 1) (totalSize - 1)\<close> and \<open>size = end - start + 1\<close>,
  and the last descriptor ends at \<open>totalSize - 1\<close>. The witness is the instance
  \<open>totalSize = 1000000\<close>, \<open>chunkSize = 262144\<close>: four chunks, the last one ending at
  \<open>999999\<close>.
\<close>

theorem generateManifest_chunks:
  assumes T: "0 < totalSize" and c: "0 < chunkSize"
    and eff: "effectiveChunkSize this_chunkSize customChunkSize = chunkSize"
  shows "\<exists>m. generateManifest stringify this_chunkSize url totalSize hdrs customChunkSize = Some m
     \<and> manifest_totalChunks m = \<lceil>real_of_int totalSize / real_of_int chunkSize\<rceil>
     \<and> int (length (manifest_chunks m)) = manifest_totalChunks m
     \<and> (\<forall>i < length (manifest_chunks m).
           chunk_index (manifest_chunks m ! i) = int i
         \<and> chunk_start (manifest_chunks m ! i) = int i * chunkSize
         \<and> chunk_end (manifest_chunks m ! i) = min ((int i + 1) * chunkSize - 1) (totalSize - 1)
         \<and> chunk_size (manifest_chunks m ! i)
             = chunk_end (manifest_chunks m ! i) - chunk_start (manifest_chunks m ! i) + 1)
     \<and> manifest_chunks m \<noteq> []
     \<and> chunk_end (last (manifest_chunks m)) = totalSize - 1"
proof -
  define n where "n = \<lceil>real_of_int totalSize / real_of_int chunkSize\<rceil>"
  define body where "body = mk_chunk stringify url totalSize hdrs chunkSize"
  define cs where "cs = chunk_loop body 0 n"
  define m where "m = \<lparr>manifest_url = url, manifest_totalSize = totalSize,
                     manifest_chunkSize = chunkSize, manifest_totalChunks = n,
                     manifest_chunks = cs, manifest_headers = hdrs\<rparr>"
  have n1: "1 \<le> n" and lo: "(n - 1) * chunkSize < totalSize" and hi: "totalSize \<le> n * chunkSize"
    unfolding n_def using ceiling_bounds[OF T c] by simp_all
  have gm: "generateManifest stringify this_chunkSize url totalSize hdrs customChunkSize = Some m"
    using c eff unfolding generateManifest_def effectiveChunkSize_def m_def cs_def body_def n_def
    by (simp add: Let_def)
  have len: "length cs = nat n" unfolding cs_def by (simp add: chunk_loop_length)
  have nth: "cs ! i = body (int i)" if "i < length cs" for i
    using that len chunk_loop_nth[of i n 0 body] unfolding cs_def by simp
  have ne: "cs \<noteq> []" using len n1 by auto
  have lastc: "last cs = body (n - 1)"
    using ne len n1 nth[of "length cs - 1"] by (simp add: last_conv_nth nat_diff_distrib)
  have "(n - 1) * chunkSize + chunkSize - 1 = n * chunkSize - 1" by (simp add: algebra_simps)
  with hi have "min ((n - 1) * chunkSize + chunkSize - 1) (totalSize - 1) = totalSize - 1" by simp
  then have lastend: "chunk_end (last cs) = totalSize - 1"
    unfolding lastc body_def mk_chunk_def by (simp add: Let_def)
  have each: "chunk_index (cs ! i) = int i
         \<and> chunk_start (cs ! i) = int i * chunkSize
         \<and> chunk_end (cs ! i) = min ((int i + 1) * chunkSize - 1) (totalSize - 1)
         \<and> chunk_size (cs ! i) = chunk_end (cs ! i) - chunk_start (cs ! i) + 1"
    if "i < length cs" for i
    unfolding nth[OF that] body_def mk_chunk_def by (simp add: Let_def algebra_simps)
  show ?thesis
    apply (rule exI[of _ m])
    using gm len n1 each ne lastend unfolding m_def n_def by simp
qed

theorem generateManifest_chunks_witness:
  "\<exists>m. generateManifest (\<lambda>h::unit. ''{}'') DEFAULT_CHUNK_SIZE ''http://host/v.mp4'' 1000000 () (Some 262144) = Some m
     \<and> manifest_totalChunks m = 4
     \<and> length (manifest_chunks m) = 4
     \<and> chunk_end (last (manifest_chunks m)) = 999999
     \<and> chunk_size (manifest_chunks m ! 3) = 999999 - 3 * 262144 + 1"
proof -
  have e: "effectiveChunkSize DEFAULT_CHUNK_SIZE (Some 262144) = 262144"
    by (simp add: effectiveChunkSize_def)
  from generateManifest_chunks [of 1000000 262144 DEFAULT_CHUNK_SIZE "Some 262144" "\<lambda>h::unit. ''{}''" "''http://host/v.mp4''" "()", OF _ _ e]
  obtain m where m: "generateManifest (\<lambda>h::unit. ''{}'') DEFAULT_CHUNK_SIZE ''http://host/v.mp4'' 1000000 () (Some 262144) = Some m"
     "manifest_totalChunks m = \<lceil>real_of_int 1000000 / real_of_int 262144\<rceil>"
     "int (length (manifest_chunks m)) = manifest_totalChunks m"
     "\<forall>i < length (manifest_chunks m).
           chunk_index (manifest_chunks m ! i) = int i
         \<and> chunk_start (manifest_chunks m ! i) = int i * 262144
         \<and> chunk_end (manifest_chunks m ! i) = min ((int i + 1) * 262144 - 1) (1000000 - 1)
         \<and> chunk_size (manifest_chunks m ! i)
             = chunk_end (manifest_chunks m ! i) - chunk_start (manifest_chunks m ! i) + 1"
     "chunk_end (last (manifest_chunks m)) = 1000000 - 1"
    by auto
  have four: "manifest_totalChunks m = 4" using m(2) by simp
  with m(3) have len: "length (manifest_chunks m) = 4" by simp
  with m(4) have "chunk_size (manifest_chunks m ! 3) = 999999 - 3 * 262144 + 1" by simp
  with m(1) four len m(5) show ?thesis by auto
qed

section \<open>Verification: the hot tier\<close>

lemma Map_delete_length_le: "length (Map_delete k m) \<le> length m"
  by (simp add: Map_delete_def)

lemma fold_Map_delete:
  "fold (\<lambda>(url, entry) c. Map_delete url c) xs c = filter (\<lambda>p. fst p \<notin> fst ` set xs) c"
proof (induction xs arbitrary: c)
  case Nil
  show ?case by simp
next
  case (Cons x xs)
  obtain u e where x: "x = (u, e)" by (cases x)
  have "fold (\<lambda>(url, entry) c. Map_delete url c) (x # xs) c
        = filter (\<lambda>p. fst p \<notin> fst ` set xs) (Map_delete u c)"
    unfolding x by (simp add: Cons.IH)
  also have "\<dots> = filter (\<lambda>p. fst p \<notin> fst ` set (x # xs)) c"
    unfolding x by (simp add: Map_delete_def conj_commute)
  finally show ?case .
qed

lemma fold_delete_if:
  "fold (\<lambda>(url, entry) c. if Q entry then Map_delete url c else c) xs c
     = filter (\<lambda>p. fst p \<notin> fst ` {q \<in> set xs. Q (snd q)}) c"
proof (induction xs arbitrary: c)
  case Nil
  show ?case by simp
next
  case (Cons x xs)
  obtain u e where x: "x = (u, e)" by (cases x)
  have S: "{q \<in> set (x # xs). Q (snd q)} = (if Q e then insert (u, e) {q \<in> set xs. Q (snd q)} else {q \<in> set xs. Q (snd q)})"
    unfolding x by auto
  have "fold (\<lambda>(url, entry) c. if Q entry then Map_delete url c else c) (x # xs) c
        = filter (\<lambda>p. fst p \<notin> fst ` {q \<in> set xs. Q (snd q)}) (if Q e then Map_delete u c else c)"
    unfolding x by (simp add: Cons.IH)
  also have "\<dots> = filter (\<lambda>p. fst p \<notin> fst ` {q \<in> set (x # xs). Q (snd q)}) c"
    unfolding S by (simp add: Map_delete_def conj_commute)
  finally show ?case .
qed

lemma key_in_image_distinct:
  assumes d: "distinct (map fst m)" and p: "p \<in> set m" and S: "S \<subseteq> set m"
  shows "fst p \<in> fst ` S \<longleftrightarrow> p \<in> S"
proof
  assume "fst p \<in> fst ` S"
  then obtain q where q: "q \<in> S" "fst q = fst p" by auto
  with S have "q \<in> set m" by auto
  with d p q(2) have "q = p" by (metis eq_key_imp_eq_value prod.collapse)
  with q show "p \<in> S" by simp
qed auto

lemma delete_expired_filter:
  assumes "distinct (map fst m)"
  shows "delete_expired expiry now m = filter (\<lambda>p. \<not> expired expiry now (snd p)) m"
proof -
  have "filter (\<lambda>p. fst p \<notin> fst ` {q \<in> set m. expired expiry now (snd q)}) m
        = filter (\<lambda>p. \<not> expired expiry now (snd p)) m"
  proof (rule filter_cong[OF refl])
    fix p assume p: "p \<in> set m"
    from key_in_image_distinct[OF assms p, of "{q \<in> set m. expired expiry now (snd q)}"] p
    show "(fst p \<notin> fst ` {q \<in> set m. expired expiry now (snd q)}) = (\<not> expired expiry now (snd p))"
      by auto
  qed
  then show ?thesis unfolding delete_expired_def by (simp add: fold_delete_if)
qed

lemma distinct_keys_filter: "distinct (map fst m) \<Longrightarrow> distinct (map fst (filter Q m))"
  by (simp add: distinct_map_filter)

lemma distinct_keys_imp_distinct: "distinct (map fst m) \<Longrightarrow> distinct m"
  by (simp add: distinct_map)

lemma evict_filter:
  assumes d: "distinct (map fst c1)" and R: "set R \<subseteq> set c1"
  shows "filter (\<lambda>p. fst p \<notin> fst ` set R) c1 = filter (\<lambda>p. p \<notin> set R) c1"
proof (rule filter_cong[OF refl])
  fix p assume "p \<in> set c1"
  from key_in_image_distinct[OF d this R] show "(fst p \<notin> fst ` set R) = (p \<notin> set R)" by simp
qed

lemma length_filter_notin:
  assumes "distinct xs" "distinct R" "set R \<subseteq> set xs"
  shows "length (filter (\<lambda>p. p \<notin> set R) xs) = length xs - length R"
proof -
  have "distinct (filter (\<lambda>p. p \<notin> set R) xs)" using assms(1) by simp
  then have "length (filter (\<lambda>p. p \<notin> set R) xs) = card (set xs - set R)"
    by (metis distinct_card set_filter set_diff_eq)
  also have "\<dots> = card (set xs) - card (set R)" using assms(3) by (simp add: card_Diff_subset)
  also have "\<dots> = length xs - length R" using assms(1,2) by (simp add: distinct_card)
  finally show ?thesis .
qed

lemma cleanup_over_capacity:
  assumes d: "distinct (map fst m)" and cap: "0 \<le> maxSize"
    and c1: "c1 = delete_expired expiry now m" and over: "Map_size c1 > maxSize"
  shows "Map_size (cleanupCache_with maxSize expiry now m) = maxSize"
proof -
  define entries where "entries = sort_key (\<lambda>p. timestamp (snd p)) c1"
  define R where "R = take (nat (Map_size c1 - maxSize)) entries"
  have dc1: "distinct (map fst c1)" unfolding c1 delete_expired_filter[OF d] using d by (rule distinct_keys_filter)
  then have dd: "distinct c1" by (rule distinct_keys_imp_distinct)
  have se: "set entries = set c1" and de: "distinct entries" and le: "length entries = length c1"
    unfolding entries_def using dd by simp_all
  have Rsub: "set R \<subseteq> set c1" unfolding R_def using se by (metis set_take_subset)
  have dR: "distinct R" unfolding R_def using de by simp
  have lR: "length R = nat (Map_size c1 - maxSize)"
    unfolding R_def using le cap by (simp add: Map_size_def)
  have res: "cleanupCache_with maxSize expiry now m = filter (\<lambda>p. p \<notin> set R) c1"
    using over unfolding cleanupCache_with_def c1[symmetric] Let_def entries_def[symmetric] R_def[symmetric]
    by (simp add: fold_Map_delete evict_filter[OF dc1 Rsub])
  show ?thesis unfolding res Map_size_def
    using length_filter_notin[OF dd dR Rsub] lR over cap by (simp add: Map_size_def)
qed

lemma Map_set_keys: "fst ` set (Map_set k v m) = insert k (fst ` set m)"
  by (induction m) auto

lemma Map_set_distinct: "distinct (map fst m) \<Longrightarrow> distinct (map fst (Map_set k v m))"
proof (induction m)
  case Nil
  show ?case by simp
next
  case (Cons p ps)
  show ?case
  proof (cases "fst p = k")
    case True
    with Cons.prems show ?thesis by simp
  next
    case False
    from Cons have "distinct (map fst (Map_set k v ps))" by simp
    moreover have "fst p \<notin> fst ` set (Map_set k v ps)"
      unfolding Map_set_keys using False Cons.prems by simp
    ultimately show ?thesis using False by simp
  qed
qed

lemma Map_set_length: "length (Map_set k v m) \<le> Suc (length m)"
  by (induction m) auto

lemma Map_set_new: "k \<notin> fst ` set m \<Longrightarrow> Map_set k v m = m @ [(k, v)]"
  by (induction m) auto

lemma Map_delete_distinct: "distinct (map fst m) \<Longrightarrow> distinct (map fst (Map_delete k m))"
  unfolding Map_delete_def by (rule distinct_keys_filter)

lemma Map_delete_get: "Map_get (Map_delete k m) k = None"
  unfolding Map_get_def Map_delete_def by (induction m) auto

lemma cleanup_distinct:
  assumes d: "distinct (map fst m)"
  shows "distinct (map fst (cleanupCache_with maxSize expiry now m))"
proof -
  let ?c1 = "delete_expired expiry now m"
  have c1: "?c1 = filter (\<lambda>p. \<not> expired expiry now (snd p)) m" by (rule delete_expired_filter[OF d])
  have dc1: "distinct (map fst ?c1)" unfolding c1 using d by (rule distinct_keys_filter)
  show ?thesis
  proof (cases "Map_size ?c1 > maxSize")
    case True
    then have "cleanupCache_with maxSize expiry now m
       = filter (\<lambda>p. fst p \<notin> fst ` set (take (nat (Map_size ?c1 - maxSize)) (sort_key (\<lambda>p. timestamp (snd p)) ?c1))) ?c1"
      unfolding cleanupCache_with_def Let_def by (simp add: fold_Map_delete)
    then show ?thesis using distinct_keys_filter[OF dc1] by simp
  next
    case False
    then have "cleanupCache_with maxSize expiry now m = ?c1"
      unfolding cleanupCache_with_def Let_def by simp
    then show ?thesis using dc1 by simp
  qed
qed

lemma cleanup_size_le:
  assumes d: "distinct (map fst m)" and cap: "0 \<le> maxSize"
  shows "Map_size (cleanupCache_with maxSize expiry now m) \<le> maxSize"
proof (cases "Map_size (delete_expired expiry now m) > maxSize")
  case True
  from cleanup_over_capacity[OF d cap refl True] show ?thesis by simp
next
  case False
  then show ?thesis unfolding cleanupCache_with_def Let_def by simp
qed

lemma cleanup_idle:
  assumes d: "distinct (map fst m)" and "\<forall>p \<in> set m. \<not> expired expiry now (snd p)"
    and "Map_size m \<le> maxSize"
  shows "cleanupCache_with maxSize expiry now m = m"
proof -
  have "delete_expired expiry now m = m"
    unfolding delete_expired_filter[OF d] using assms(2) by (simp add: filter_id_conv)
  then show ?thesis using assms(3) unfolding cleanupCache_with_def Let_def by simp
qed

lemma cleanup_evicts_oldest:
  assumes d: "distinct (map fst m)"
    and c1: "c1 = delete_expired expiry now m" and over: "Map_size c1 > maxSize"
    and r: "r \<in> set c1" "r \<notin> set (cleanupCache_with maxSize expiry now m)"
    and q: "q \<in> set (cleanupCache_with maxSize expiry now m)"
  shows "timestamp (snd r) \<le> timestamp (snd q)"
proof -
  define f where "f = (\<lambda>p::string \<times> ('a, 'b) CacheEntry_scheme. timestamp (snd p))"
  define entries where "entries = sort_key f c1"
  define k where "k = nat (Map_size c1 - maxSize)"
  define R where "R = take k entries"
  have dc1: "distinct (map fst c1)" unfolding c1 delete_expired_filter[OF d] using d by (rule distinct_keys_filter)
  have se: "set entries = set c1" unfolding entries_def by simp
  have Rsub: "set R \<subseteq> set c1" unfolding R_def using se by (metis set_take_subset)
  have res: "cleanupCache_with maxSize expiry now m = filter (\<lambda>p. p \<notin> set R) c1"
    using over unfolding cleanupCache_with_def c1[symmetric] Let_def f_def[symmetric] entries_def[symmetric] k_def[symmetric] R_def[symmetric]
    by (simp add: fold_Map_delete evict_filter[OF dc1 Rsub])
  from r have rR: "r \<in> set R" unfolding res by simp
  from q have qc: "q \<in> set c1" and qR: "q \<notin> set R" unfolding res by simp_all
  have "entries = take k entries @ drop k entries" by simp
  with qc se qR have qD: "q \<in> set (drop k entries)" unfolding R_def by (metis Un_iff set_append)
  have srt: "sorted (map f entries)" unfolding entries_def by simp
  then have "sorted (map f (take k entries) @ map f (drop k entries))"
    by (metis append_take_drop_id map_append)
  then have "\<forall>x \<in> set (map f (take k entries)). \<forall>y \<in> set (map f (drop k entries)). x \<le> y"
    by (simp add: sorted_append)
  with rR qD show ?thesis unfolding R_def f_def by auto
qed

text \<open>
  Claim C7. A hot-tier \<open>get\<close> never returns an entry whose age \<open>now - timestamp\<close>
  exceeds the tier's TTL. With the cache enabled, an entry stored under the key and older
  than the TTL is deleted from the map and the call reports a miss; an entry that is not
  older is returned and the map stays as it is. This holds for the segment tier
  (\<open>getCachedSegment\<close>, two hours) and for the MP4 tier (\<open>getCachedChunk\<close>, four
  hours). With the cache disabled the call returns nothing, which claim C9 is about.
\<close>

theorem hot_get_ttl:
  "(fst (getCachedSegment config now c url) = Some entry \<longrightarrow> now - timestamp entry \<le> CACHE_EXPIRY_MS)
   \<and> (\<not> isCacheDisabled config \<and> Map_get c url = Some entry \<and> now - timestamp entry > CACHE_EXPIRY_MS \<longrightarrow>
        getCachedSegment config now c url = (None, Map_delete url c)
        \<and> Map_get (Map_delete url c) url = None)
   \<and> (\<not> isCacheDisabled config \<and> Map_get c url = Some entry \<and> now - timestamp entry \<le> CACHE_EXPIRY_MS \<longrightarrow>
        getCachedSegment config now c url = (Some entry, c))
   \<and> (fst (getCachedChunk e now c2 url2 range1) = Some entry2 \<longrightarrow> now - timestamp entry2 \<le> MP4_CACHE_EXPIRY_MS)
   \<and> (\<not> mp4_isCacheDisabled e \<and> Map_get c2 (url2 @ '':'' @ range1) = Some entry2
        \<and> now - timestamp entry2 > MP4_CACHE_EXPIRY_MS \<longrightarrow>
        getCachedChunk e now c2 url2 range1 = (None, Map_delete (url2 @ '':'' @ range1) c2)
        \<and> Map_get (Map_delete (url2 @ '':'' @ range1) c2) (url2 @ '':'' @ range1) = None)
   \<and> (\<not> mp4_isCacheDisabled e \<and> Map_get c2 (url2 @ '':'' @ range1) = Some entry2
        \<and> now - timestamp entry2 \<le> MP4_CACHE_EXPIRY_MS \<longrightarrow>
        getCachedChunk e now c2 url2 range1 = (Some entry2, c2))"
proof (intro conjI impI)
  show "now - timestamp entry \<le> CACHE_EXPIRY_MS"
    if "fst (getCachedSegment config now c url) = Some entry"
    using that unfolding getCachedSegment_def by (auto split: if_splits option.splits)
  show "now - timestamp entry2 \<le> MP4_CACHE_EXPIRY_MS"
    if "fst (getCachedChunk e now c2 url2 range1) = Some entry2"
    using that unfolding getCachedChunk_def Let_def by (auto split: if_splits option.splits)
qed (simp_all add: getCachedSegment_def getCachedChunk_def Let_def Map_delete_get)

theorem hot_get_ttl_witness:
  "getCachedSegment \<lparr>DISABLE_CACHE = False, ENABLE_REDIS = True\<rparr> 14400001
       [(''http://host/a/seg1.ts'', \<lparr>data = ''x'', headers = (), timestamp = 0\<rparr>)] ''http://host/a/seg1.ts''
     = (None, [])
   \<and> getCachedSegment \<lparr>DISABLE_CACHE = False, ENABLE_REDIS = True\<rparr> 7200000
       [(''http://host/a/seg1.ts'', \<lparr>data = ''x'', headers = (), timestamp = 0\<rparr>)] ''http://host/a/seg1.ts''
     = (Some \<lparr>data = ''x'', headers = (), timestamp = 0\<rparr>,
        [(''http://host/a/seg1.ts'', \<lparr>data = ''x'', headers = (), timestamp = 0\<rparr>)])
   \<and> getCachedChunk Map.empty 14400001
       [(''http://host/v.mp4:bytes=0-9'', \<lparr>data = ''x'', headers = (), timestamp = 0, entry_range = ''bytes=0-9''\<rparr>)]
       ''http://host/v.mp4'' ''bytes=0-9''
     = (None, [])
   \<and> getCachedChunk Map.empty 7200000
       [(''http://host/v.mp4:bytes=0-9'', \<lparr>data = ''x'', headers = (), timestamp = 0, entry_range = ''bytes=0-9''\<rparr>)]
       ''http://host/v.mp4'' ''bytes=0-9''
     = (Some \<lparr>data = ''x'', headers = (), timestamp = 0, entry_range = ''bytes=0-9''\<rparr>,
        [(''http://host/v.mp4:bytes=0-9'', \<lparr>data = ''x'', headers = (), timestamp = 0, entry_range = ''bytes=0-9''\<rparr>)])"
  using
    hot_get_ttl [of "\<lparr>DISABLE_CACHE = False, ENABLE_REDIS = True\<rparr>" 14400001
       "[(''http://host/a/seg1.ts'', \<lparr>data = ''x'', headers = (), timestamp = 0\<rparr>)]" "''http://host/a/seg1.ts''"
       "\<lparr>data = ''x'', headers = (), timestamp = 0\<rparr>" Map.empty
       "[(''http://host/v.mp4:bytes=0-9'', \<lparr>data = ''x'', headers = (), timestamp = 0, entry_range = ''bytes=0-9''\<rparr>)]"
       "''http://host/v.mp4''" "''bytes=0-9''" "\<lparr>data = ''x'', headers = (), timestamp = 0, entry_range = ''bytes=0-9''\<rparr>"]
    hot_get_ttl [of "\<lparr>DISABLE_CACHE = False, ENABLE_REDIS = True\<rparr>" 7200000
       "[(''http://host/a/seg1.ts'', \<lparr>data = ''x'', headers = (), timestamp = 0\<rparr>)]" "''http://host/a/seg1.ts''"
       "\<lparr>data = ''x'', headers = (), timestamp = 0\<rparr>" Map.empty
       "[(''http://host/v.mp4:bytes=0-9'', \<lparr>data = ''x'', headers = (), timestamp = 0, entry_range = ''bytes=0-9''\<rparr>)]"
       "''http://host/v.mp4''" "''bytes=0-9''" "\<lparr>data = ''x'', headers = (), timestamp = 0, entry_range = ''bytes=0-9''\<rparr>"]
  by (simp add: isCacheDisabled_def mp4_isCacheDisabled_def Map_get_def Map_delete_def
        CACHE_EXPIRY_MS_def MP4_CACHE_EXPIRY_MS_def)

lemma prefetch_distinct:
  assumes d: "distinct (map fst c)"
  shows "distinct (map fst (prefetchMP4Chunk e t1 t2 t3 url start end1 fetched c))"
proof -
  let ?c1 = "if Map_size c \<ge> MP4_CACHE_MAX_SIZE then mp4_cleanupCache t1 c else c"
  have d1: "distinct (map fst ?c1)"
    using d cleanup_distinct[OF d] unfolding mp4_cleanupCache_def by simp
  show ?thesis
    unfolding prefetchMP4Chunk_def Let_def
    using d d1 Map_set_distinct[OF d1] by (auto split: option.splits)
qed

lemma prefetch_size:
  assumes d: "distinct (map fst c)"
  shows "Map_size (prefetchMP4Chunk e t1 t2 t3 url start end1 fetched c) \<le> max (Map_size c) (MP4_CACHE_MAX_SIZE + 1)"
proof -
  define c1 where "c1 = (if Map_size c \<ge> MP4_CACHE_MAX_SIZE then mp4_cleanupCache t1 c else c)"
  have cap: "0 \<le> MP4_CACHE_MAX_SIZE" by (simp add: MP4_CACHE_MAX_SIZE_def)
  have s1: "Map_size c1 \<le> MP4_CACHE_MAX_SIZE"
    using cleanup_size_le[OF d cap] unfolding c1_def mp4_cleanupCache_def by simp
  have s2: "Map_size (Map_set k v c1) \<le> max (Map_size c) (MP4_CACHE_MAX_SIZE + 1)" for k v
    using s1 Map_set_length[of k v c1] unfolding Map_size_def by linarith
  have s3: "Map_size c1 \<le> max (Map_size c) (MP4_CACHE_MAX_SIZE + 1)"
    using s1 by linarith
  have "prefetchMP4Chunk e t1 t2 t3 url start end1 fetched c = c
      \<or> prefetchMP4Chunk e t1 t2 t3 url start end1 fetched c = c1
      \<or> (\<exists>k v. prefetchMP4Chunk e t1 t2 t3 url start end1 fetched c = Map_set k v c1)"
    unfolding prefetchMP4Chunk_def Let_def c1_def[symmetric]
    by (cases fetched) auto
  then show ?thesis using s2 s3 by (elim disjE exE) simp_all
qed

lemma hot_run_snoc: "hot_run e (ops @ [x]) = hot_step e x (hot_run e ops)"
  by (simp add: hot_run_def)

lemma hot_run_invariant:
  "distinct (map fst (hot_run e ops)) \<and> Map_size (hot_run e ops) \<le> MP4_CACHE_MAX_SIZE + 1"
proof (induction ops rule: rev_induct)
  case Nil
  show ?case by (simp add: hot_run_def Map_size_def MP4_CACHE_MAX_SIZE_def)
next
  case (snoc x ops)
  then have d: "distinct (map fst (hot_run e ops))"
    and b: "Map_size (hot_run e ops) \<le> MP4_CACHE_MAX_SIZE + 1" by simp_all
  have cap: "0 \<le> MP4_CACHE_MAX_SIZE" by (simp add: MP4_CACHE_MAX_SIZE_def)
  show ?case
  proof (cases x)
    case (Prefetch t1 t2 t3 url start end1 fetched)
    from prefetch_distinct[OF d] prefetch_size[OF d, of e t1 t2 t3 url start end1 fetched] b
    show ?thesis unfolding hot_run_snoc Prefetch by simp
  next
    case (Sweep now)
    from cleanup_distinct[OF d] cleanup_size_le[OF d cap]
    show ?thesis unfolding hot_run_snoc Sweep
      by (simp add: mp4_cleanupCache_def add_increasing2)
  qed
qed

lemma fill_key_inj: "fst (fill_entry i) = fst (fill_entry j) \<Longrightarrow> i = j"
proof -
  assume "fst (fill_entry i) = fst (fill_entry j)"
  then have "length (fst (fill_entry i)) = length (fst (fill_entry j))" by simp
  then show "i = j" unfolding fill_entry_def fill_url_def by simp
qed

lemma prefetch_new_key:
  assumes en: "\<not> mp4_isCacheDisabled e" and d: "distinct (map fst c)"
    and fresh: "\<forall>p \<in> set c. \<not> expired MP4_CACHE_EXPIRY_MS t1 (snd p)"
    and sz: "Map_size c \<le> MP4_CACHE_MAX_SIZE"
    and new: "url @ '':'' @ ''bytes='' @ show_int start @ ''-'' @ show_int end1 \<notin> fst ` set c"
  shows "prefetchMP4Chunk e t1 t2 t3 url start end1 (Some (body, h)) c
     = c @ [(url @ '':'' @ ''bytes='' @ show_int start @ ''-'' @ show_int end1,
            \<lparr>data = body, headers = h, timestamp = t3,
             entry_range = ''bytes='' @ show_int start @ ''-'' @ show_int end1\<rparr>)]"
proof -
  have c1: "(if Map_size c \<ge> MP4_CACHE_MAX_SIZE then mp4_cleanupCache t1 c else c) = c"
    using cleanup_idle[OF d fresh sz] unfolding mp4_cleanupCache_def by simp
  have g: "Map_get c (url @ '':'' @ ''bytes='' @ show_int start @ ''-'' @ show_int end1) = None"
    using new unfolding Map_get_def by (simp add: map_of_eq_None_iff)
  show ?thesis
    unfolding prefetchMP4Chunk_def Let_def c1 using en g Map_set_new[OF new] by simp
qed

lemma fill_run: "n \<le> 501 \<Longrightarrow> hot_run Map.empty (fill_ops n) = map fill_entry [0..<n]"
proof (induction n)
  case 0
  show ?case by (simp add: fill_ops_def hot_run_def)
next
  case (Suc n)
  then have IH: "hot_run Map.empty (fill_ops n) = map fill_entry [0..<n]" and n: "n \<le> 500" by simp_all
  let ?c = "map fill_entry [0..<n]"
  have en: "\<not> mp4_isCacheDisabled Map.empty" by (simp add: mp4_isCacheDisabled_def)
  have d: "distinct (map fst ?c)"
    by (simp add: distinct_map inj_on_def comp_def) (metis fill_key_inj)
  have fresh: "\<forall>p \<in> set ?c. \<not> expired MP4_CACHE_EXPIRY_MS 1000 (snd p)"
    by (auto simp: fill_entry_def expired_def MP4_CACHE_EXPIRY_MS_def)
  have sz: "Map_size ?c \<le> MP4_CACHE_MAX_SIZE" using n by (simp add: Map_size_def MP4_CACHE_MAX_SIZE_def)
  have new: "fill_url n @ '':'' @ ''bytes='' @ show_int 0 @ ''-'' @ show_int 10485759 \<notin> fst ` set ?c"
  proof
    assume "fill_url n @ '':'' @ ''bytes='' @ show_int 0 @ ''-'' @ show_int 10485759 \<in> fst ` set ?c"
    then obtain i where "i < n" "fst (fill_entry i) = fst (fill_entry n)"
      by (auto simp: fill_entry_def)
    with fill_key_inj show False by blast
  qed
  have "fill_ops (Suc n) = fill_ops n @ [Prefetch 1000 1000 1000 (fill_url n) 0 10485759 (Some (''x'', ()))]"
    by (simp add: fill_ops_def)
  then have "hot_run Map.empty (fill_ops (Suc n))
     = prefetchMP4Chunk Map.empty 1000 1000 1000 (fill_url n) 0 10485759 (Some (''x'', ())) ?c"
    by (simp add: hot_run_snoc IH)
  also have "\<dots> = ?c @ [fill_entry n]"
    unfolding prefetch_new_key[OF en d fresh sz new] fill_entry_def by simp
  finally show ?case by simp
qed

text \<open>
  Claim C3 says that after any sequence of hot-tier \<open>set\<close> operations and sweeps the
  map never holds more than \<open>CACHE_MAX_SIZE\<close> entries. The code does not keep that
  bound: \<open>prefetchMP4Chunk\<close> sweeps before it stores, when the size is at least the
  capacity, but the sweep only evicts when the size is above the capacity. The history
  \<open>fill_ops 501\<close>, 501 successful prefetches of different URLs, leaves 501 entries in a
  tier whose capacity is 500. (By \<open>hot_run_invariant\<close> the size never goes beyond
  capacity plus one in a sequential history; by \<open>cleanup_over_capacity\<close> and
  \<open>cleanup_evicts_oldest\<close> a sweep that finds the map above capacity brings it back to
  capacity by evicting the oldest entries, as the claim's second half says.)
\<close>

theorem hot_tier_exceeds_capacity:
  "Map_size (hot_run Map.empty (fill_ops 501)) = MP4_CACHE_MAX_SIZE + 1"
  using fill_run[of 501] by (simp add: Map_size_def MP4_CACHE_MAX_SIZE_def)

section \<open>Verification: the warm tier and the cache switch\<close>

text \<open>
  Claim C2. For an envelope that the warm-tier \<open>get\<close> reads (client connected, the
  command answered, the stored text parsed): with \<open>version = 2\<close> the payload returned
  is the gunzip of the base64-decoded \<open>data\<close> (a miss when gunzip fails); with
  \<open>version\<close> 1 or absent it is the base64-decoded \<open>data\<close> as it is, whatever
  \<open>gunzip\<close> would do. The warm-tier \<open>set\<close> of a connected client writes, under the
  key of the URL, the envelope \<open>dataToStore\<close>, whose \<open>version\<close> is 2 and whose
  \<open>data\<close> is the base64 text of the gzip of the payload; no call of \<open>set\<close> writes
  anything else.
\<close>

theorem warm_tier_versions:
  assumes conn: "isConnected rc" "has_client rc"
    and stored: "server (getCacheKey url) = Some (ttl, raw)" "raw \<noteq> []"
      "JSON_parse P raw = Some parsed"
  shows "(stored_version parsed = Some 2 \<longrightarrow>
            RedisCache_get P rc True server url
              = map_option (\<lambda>finalData. \<lparr>data = finalData, headers = stored_headers parsed,
                                          timestamp = stored_timestamp parsed\<rparr>)
                  (gunzip P (from_base64 P (stored_data parsed))))
       \<and> (stored_version parsed = Some 1 \<or> stored_version parsed = None \<longrightarrow>
            RedisCache_get P rc True server url
              = Some \<lparr>data = from_base64 P (stored_data parsed), headers = stored_headers parsed,
                      timestamp = stored_timestamp parsed\<rparr>
            \<and> (\<forall>g. RedisCache_get (P\<lparr>gunzip := g\<rparr>) rc True server url
                     = RedisCache_get P rc True server url))
       \<and> RedisCache_set P rc True server url2 entry
            = server(getCacheKey url2 \<mapsto> (CACHE_EXPIRY_SECONDS, JSON_stringify P (dataToStore P entry)))
       \<and> stored_version (dataToStore P entry) = Some 2
       \<and> stored_data (dataToStore P entry) = base64 (gzip P (data entry))
       \<and> (\<forall>that ok. RedisCache_set P that ok server url2 entry = server
              \<or> RedisCache_set P that ok server url2 entry
                  = server(getCacheKey url2 \<mapsto> (CACHE_EXPIRY_SECONDS, JSON_stringify P (dataToStore P entry))))"
proof (intro conjI impI allI)
  show "RedisCache_get P rc True server url
      = map_option (\<lambda>finalData. \<lparr>data = finalData, headers = stored_headers parsed,
                                  timestamp = stored_timestamp parsed\<rparr>)
          (gunzip P (from_base64 P (stored_data parsed)))"
    if "stored_version parsed = Some 2"
    using that conn stored by (simp add: RedisCache_get_def Let_def split: option.splits)
  show "RedisCache_get P rc True server url
      = Some \<lparr>data = from_base64 P (stored_data parsed), headers = stored_headers parsed,
              timestamp = stored_timestamp parsed\<rparr>"
    if "stored_version parsed = Some 1 \<or> stored_version parsed = None"
    using that conn stored by (auto simp: RedisCache_get_def Let_def)
  show "RedisCache_get (P\<lparr>gunzip := g\<rparr>) rc True server url = RedisCache_get P rc True server url"
    if "stored_version parsed = Some 1 \<or> stored_version parsed = None" for g
    using that conn stored by (auto simp: RedisCache_get_def Let_def)
  show "RedisCache_set P rc True server url2 entry
      = server(getCacheKey url2 \<mapsto> (CACHE_EXPIRY_SECONDS, JSON_stringify P (dataToStore P entry)))"
    using conn by (simp add: RedisCache_set_def)
  show "stored_version (dataToStore P entry) = Some 2" by (simp add: dataToStore_def)
  show "stored_data (dataToStore P entry) = base64 (gzip P (data entry))" by (simp add: dataToStore_def)
  show "RedisCache_set P that ok server url2 entry = server
      \<or> RedisCache_set P that ok server url2 entry
          = server(getCacheKey url2 \<mapsto> (CACHE_EXPIRY_SECONDS, JSON_stringify P (dataToStore P entry)))"
    for that ok
    by (simp add: RedisCache_set_def)
qed

lemma demo_keys:
  "getCacheKey ''http://host/a/seg1.ts'' = ''ts_segment:aHR0cDovL2hvc3QvYS9zZWcxLnRz''"
  "getCacheKey ''http://host/a/seg2.ts'' = ''ts_segment:aHR0cDovL2hvc3QvYS9zZWcyLnRz''"
  by code_simp+

lemma demo_decode:
  "base64_decode ''aGk='' = ''hi''"
  "base64_decode ''H4toaQ=='' = [CHR 0x1F, CHR 0x8B, CHR ''h'', CHR ''i'']"
  by code_simp+

theorem warm_tier_versions_witness:
  "RedisCache_get demo_platform demo_redis True demo_server ''http://host/a/seg1.ts''
     = Some \<lparr>data = ''hi'', headers = (), timestamp = 0\<rparr>
   \<and> RedisCache_get demo_platform demo_redis True demo_server ''http://host/a/seg2.ts''
     = Some \<lparr>data = ''hi'', headers = (), timestamp = 0\<rparr>
   \<and> RedisCache_set demo_platform demo_redis True demo_server ''http://host/a/seg1.ts''
        \<lparr>data = ''hi'', headers = (), timestamp = 0\<rparr>
     = demo_server(getCacheKey ''http://host/a/seg1.ts'' \<mapsto> (7200, v2_text))
   \<and> stored_data (dataToStore demo_platform \<lparr>data = ''hi'', headers = (), timestamp = 0\<rparr>) = ''H4toaQ==''"
proof -
  have s1: "demo_server (getCacheKey ''http://host/a/seg1.ts'') = Some (7200, legacy_text)"
    by (simp add: demo_server_def demo_keys)
  have s2: "demo_server (getCacheKey ''http://host/a/seg2.ts'') = Some (7200, v2_text)"
    by (simp add: demo_server_def demo_keys)
  have p1: "JSON_parse demo_platform legacy_text
      = Some \<lparr>stored_data = ''aGk='', stored_headers = (), stored_timestamp = 0, stored_version = None\<rparr>"
    by (simp add: demo_platform_def)
  have p2: "JSON_parse demo_platform v2_text
      = Some \<lparr>stored_data = ''H4toaQ=='', stored_headers = (), stored_timestamp = 0, stored_version = Some 2\<rparr>"
    by (simp add: demo_platform_def legacy_text_def v2_text_def)
  have c: "isConnected demo_redis" "has_client demo_redis" by (simp_all add: demo_redis_def)
  have n1: "legacy_text \<noteq> []" and n2: "v2_text \<noteq> []" by (simp_all add: legacy_text_def v2_text_def)
  have g: "gunzip demo_platform [CHR 0x1F, CHR 0x8B, CHR ''h'', CHR ''i''] = Some ''hi''"
    and f: "from_base64 demo_platform = base64_decode"
    and z: "gzip demo_platform ''hi'' = [CHR 0x1F, CHR 0x8B, CHR ''h'', CHR ''i'']"
    and j: "JSON_stringify demo_platform = (\<lambda>env. v2_text)"
    by (simp_all add: demo_platform_def)
  have b: "base64 [CHR 0x1F, CHR 0x8B, CHR ''h'', CHR ''i''] = ''H4toaQ==''"
    by code_simp
  show ?thesis
    using c s1 s2 n1 n2 p1 p2
      warm_tier_versions [where rc = demo_redis and server = demo_server
        and url = "''http://host/a/seg1.ts''" and ttl = 7200 and raw = legacy_text
        and P = demo_platform
        and parsed = "\<lparr>stored_data = ''aGk='', stored_headers = (), stored_timestamp = 0, stored_version = None\<rparr>"
        and ?url2.0 = "''http://host/a/seg1.ts''" and entry = "\<lparr>data = ''hi'', headers = (), timestamp = 0\<rparr>"]
      warm_tier_versions [where rc = demo_redis and server = demo_server
        and url = "''http://host/a/seg2.ts''" and ttl = 7200 and raw = v2_text
        and P = demo_platform
        and parsed = "\<lparr>stored_data = ''H4toaQ=='', stored_headers = (), stored_timestamp = 0, stored_version = Some 2\<rparr>"
        and ?url2.0 = "''http://host/a/seg1.ts''" and entry = "\<lparr>data = ''hi'', headers = (), timestamp = 0\<rparr>"]
    by (simp add: demo_decode g f z j b CACHE_EXPIRY_SECONDS_def del: base64_decode.simps base64.simps)
qed

text \<open>
  Claim C9, as the code has it. When \<open>config.DISABLE_CACHE\<close> is set, the segment
  hot-tier \<open>get\<close> reports a miss and leaves the map as it is, the warm tier's
  \<open>isCacheDisabled()\<close> is true, and the segment route, which asks it before every
  warm-tier access, looks nothing up and stores nothing. When the environment variable
  \<open>DISABLE_CACHE\<close> is \<open>true\<close>, the MP4 hot-tier \<open>get\<close> reports a miss and the MP4
  hot-tier store (\<open>prefetchMP4Chunk\<close>) leaves the map as it is. The methods
  \<open>get\<close>, \<open>set\<close> and \<open>delete\<close> of the warm-tier client do not read the flag: the
  counterexample below has the flag set, a hit from \<open>get\<close>, a key removed by
  \<open>delete\<close> and a key written by \<open>set\<close>.
\<close>

theorem cache_disable_gates:
  "(DISABLE_CACHE config \<longrightarrow>
      getCachedSegment config now c url = (None, c)
      \<and> RedisCache_isCacheDisabled config rc
      \<and> route_lookup P config rc ok server url = None
      \<and> route_store P config rc ok1 ok2 server url entry = server)
   \<and> (mp4_isCacheDisabled e \<longrightarrow>
      getCachedChunk e now c2 url2 range1 = (None, c2)
      \<and> prefetchMP4Chunk e t1 t2 t3 url2 start end1 fetched c2 = c2)"
  by (simp add: getCachedSegment_def isCacheDisabled_def RedisCache_isCacheDisabled_def
        route_lookup_def route_store_def ts_isCacheDisabled_def getCachedChunk_def
        prefetchMP4Chunk_def)

theorem cache_disable_gates_witness:
  "DISABLE_CACHE \<lparr>DISABLE_CACHE = True, ENABLE_REDIS = True\<rparr>
   \<and> getCachedSegment \<lparr>DISABLE_CACHE = True, ENABLE_REDIS = True\<rparr> 1000
        [(''http://host/a/seg1.ts'', \<lparr>data = ''x'', headers = (), timestamp = 0\<rparr>)] ''http://host/a/seg1.ts''
      = (None, [(''http://host/a/seg1.ts'', \<lparr>data = ''x'', headers = (), timestamp = 0\<rparr>)])
   \<and> route_lookup demo_platform \<lparr>DISABLE_CACHE = True, ENABLE_REDIS = True\<rparr> demo_redis True demo_server
        ''http://host/a/seg1.ts'' = None
   \<and> route_store demo_platform \<lparr>DISABLE_CACHE = True, ENABLE_REDIS = True\<rparr> demo_redis True True demo_server
        ''http://host/a/seg1.ts'' \<lparr>data = ''hi'', headers = (), timestamp = 0\<rparr> = demo_server
   \<and> mp4_isCacheDisabled [''DISABLE_CACHE'' \<mapsto> ''true'']
   \<and> getCachedChunk [''DISABLE_CACHE'' \<mapsto> ''true''] 1000
        [(''http://host/v.mp4:bytes=0-9'', \<lparr>data = ''x'', headers = (), timestamp = 0, entry_range = ''bytes=0-9''\<rparr>)]
        ''http://host/v.mp4'' ''bytes=0-9''
      = (None, [(''http://host/v.mp4:bytes=0-9'', \<lparr>data = ''x'', headers = (), timestamp = 0, entry_range = ''bytes=0-9''\<rparr>)])
   \<and> prefetchMP4Chunk [''DISABLE_CACHE'' \<mapsto> ''true''] 1000 1000 1000 ''http://host/v.mp4'' 10 19
        (Some (''x'', ()))
        [(''http://host/v.mp4:bytes=0-9'', \<lparr>data = ''x'', headers = (), timestamp = 0, entry_range = ''bytes=0-9''\<rparr>)]
      = [(''http://host/v.mp4:bytes=0-9'', \<lparr>data = ''x'', headers = (), timestamp = 0, entry_range = ''bytes=0-9''\<rparr>)]"
proof -
  have a: "DISABLE_CACHE \<lparr>DISABLE_CACHE = True, ENABLE_REDIS = True\<rparr>" by simp
  have b: "mp4_isCacheDisabled [''DISABLE_CACHE'' \<mapsto> ''true'']" by (simp add: mp4_isCacheDisabled_def)
  show ?thesis
    using a b
      cache_disable_gates [where config = "\<lparr>DISABLE_CACHE = True, ENABLE_REDIS = True\<rparr>" and now = 1000
        and c = "[(''http://host/a/seg1.ts'', \<lparr>data = ''x'', headers = (), timestamp = 0\<rparr>)]"
        and url = "''http://host/a/seg1.ts''" and rc = demo_redis and P = demo_platform and ok = True
        and server = demo_server and ?ok1.0 = True and ?ok2.0 = True
        and entry = "\<lparr>data = ''hi'', headers = (), timestamp = 0\<rparr>"
        and e = "[''DISABLE_CACHE'' \<mapsto> ''true'']"
        and ?c2.0 = "[(''http://host/v.mp4:bytes=0-9'', \<lparr>data = ''x'', headers = (), timestamp = 0, entry_range = ''bytes=0-9''\<rparr>)]"
        and ?url2.0 = "''http://host/v.mp4''" and ?range1.0 = "''bytes=0-9''"
        and ?t1.0 = 1000 and ?t2.0 = 1000 and ?t3.0 = 1000 and start = 10 and ?end1.0 = 19
        and fetched = "Some (''x'', ())"]
    by simp
qed

lemma demo_key3:
  "getCacheKey ''http://host/a/seg3.ts'' = ''ts_segment:aHR0cDovL2hvc3QvYS9zZWczLnRz''"
  by code_simp

theorem cache_disable_counterexample:
  "DISABLE_CACHE \<lparr>DISABLE_CACHE = True, ENABLE_REDIS = True\<rparr>
   \<and> RedisCache_get demo_platform demo_redis True demo_server ''http://host/a/seg1.ts''
       = Some \<lparr>data = ''hi'', headers = (), timestamp = 0\<rparr>
   \<and> demo_server (getCacheKey ''http://host/a/seg1.ts'') = Some (7200, legacy_text)
   \<and> RedisCache_delete demo_redis True demo_server ''http://host/a/seg1.ts'' (getCacheKey ''http://host/a/seg1.ts'') = None
   \<and> RedisCache_set demo_platform demo_redis True demo_server ''http://host/a/seg3.ts''
        \<lparr>data = ''hi'', headers = (), timestamp = 0\<rparr> (getCacheKey ''http://host/a/seg3.ts'') = Some (7200, v2_text)
   \<and> demo_server (getCacheKey ''http://host/a/seg3.ts'') = None"
  by (simp add: RedisCache_get_def RedisCache_delete_def RedisCache_set_def demo_redis_def demo_server_def
      demo_platform_def demo_keys demo_key3 demo_decode CACHE_EXPIRY_SECONDS_def legacy_text_def
      del: base64_decode.simps)

section \<open>Verification: the URL resolver\<close>

lemma strip_prefix_ci_cons:
  "strip_prefix_ci (c # p) s = Some r \<Longrightarrow> \<exists>d t. s = d # t \<and> to_lower d = c \<and> strip_prefix_ci p t = Some r"
  by (cases s) (auto split: if_splits)

lemma scheme_prefix_declares: "scheme_prefix s = Some x \<Longrightarrow> declares_scheme s"
  unfolding scheme_prefix_def declares_scheme_def by (auto split: option.splits)

lemma authority_written:
  assumes h: "\<forall>c \<in> set a. c \<noteq> CHR ''/'' \<and> c \<noteq> CHR ''?''"
    and t: "tl1 = [] \<or> hd tl1 = CHR ''/'' \<or> hd tl1 = CHR ''?''"
  shows "authority (a @ tl1) = a"
proof (cases tl1)
  case Nil
  with h show ?thesis unfolding authority_def by (simp add: takeWhile_eq_all_conv)
next
  case (Cons c r)
  with t have "c = CHR ''/'' \<or> c = CHR ''?''" by simp
  with h Cons show ?thesis unfolding authority_def by (simp add: takeWhile_append2)
qed

lemma port_tail_skip: "CHR '':'' \<notin> set h \<Longrightarrow> port_tail (h @ pp) = port_tail pp"
  by (induction h) auto

lemma not_digit_slash: "is_digit c \<Longrightarrow> c \<noteq> CHR ''/'' \<and> c \<noteq> CHR ''?''"
  by (auto simp: is_digit_def)

lemma url_match_written:
  assumes nd: "\<not> declares_scheme (sl @ host @ pp @ tl1)"
    and sl: "sl = [] \<or> sl = ''//''"
    and host: "host \<noteq> []" "\<forall>c \<in> set host. c \<noteq> CHR ''/'' \<and> c \<noteq> CHR ''?'' \<and> c \<noteq> CHR '':''"
    and pp: "pp = [] \<or> (\<exists>p. pp = CHR '':'' # p \<and> list_all is_digit p \<and> length p \<le> 5)"
    and t: "tl1 = [] \<or> hd tl1 = CHR ''/'' \<or> hd tl1 = CHR ''?''"
  shows "url_match (sl @ host @ pp @ tl1) = Some (None, written_port pp)"
proof -
  let ?s = "sl @ host @ pp @ tl1"
  have sp: "scheme_prefix ?s = None"
    using nd scheme_prefix_declares[of ?s] by (cases "scheme_prefix ?s") auto
  have ppc: "\<forall>c \<in> set pp. c \<noteq> CHR ''/'' \<and> c \<noteq> CHR ''?''"
  proof
    fix c assume c: "c \<in> set pp"
    with pp obtain p where p: "pp = CHR '':'' # p" "list_all is_digit p" by auto
    from c p(1) have "c = CHR '':'' \<or> c \<in> set p" by simp
    then show "c \<noteq> CHR ''/'' \<and> c \<noteq> CHR ''?''"
    proof
      assume "c = CHR '':''" then show ?thesis by simp
    next
      assume "c \<in> set p"
      with p(2) have "is_digit c" by (simp add: list_all_iff)
      then show ?thesis by (rule not_digit_slash)
    qed
  qed
  have auth: "authority ((host @ pp) @ tl1) = host @ pp"
    by (rule authority_written) (use host ppc t in auto)
  obtain c h where hc: "host = c # h" using host(1) by (cases host) auto
  have nocolon: "CHR '':'' \<notin> set h" using host(2) hc by auto
  have pt: "port_tail pp = written_port pp"
    using pp by (auto simp: written_port_def)
  have pg: "port_group (host @ pp) = written_port pp"
    unfolding port_group_def hc using port_tail_skip[OF nocolon, of pp] pt by simp
  have mf: "match_from None (host @ pp @ tl1) = Some (None, written_port pp)"
    unfolding match_from_def using auth pg host(1) by simp
  from sl show ?thesis
  proof
    assume e: "sl = []"
    have c: "c \<noteq> CHR ''/''" using host(2) hc by simp
    have "strip_prefix ''//'' (host @ pp @ tl1) = None" unfolding hc using c by simp
    then show ?thesis unfolding url_match_def Let_def using sp mf e by simp
  next
    assume e: "sl = ''//''"
    have "strip_prefix ''//'' (''//'' @ host @ pp @ tl1) = Some (host @ pp @ tl1)"
      by (rule strip_prefix_append)
    then show ?thesis unfolding url_match_def Let_def using sp mf e by simp
  qed
qed

lemma match_from_fst: "match_from sc r = Some (g, p) \<Longrightarrow> g = sc"
  unfolding match_from_def by (simp split: if_splits)

lemma url_match_no_scheme:
  assumes sp: "scheme_prefix s = None" and m: "url_match s = Some (g, p)"
  shows "g = None"
proof (cases "strip_prefix ''//'' s")
  case None
  with sp m have "match_from None s = Some (g, p)" unfolding url_match_def Let_def by simp
  then show ?thesis by (rule match_from_fst)
next
  case (Some r')
  show ?thesis
  proof (cases "match_from None r'")
    case None
    with sp m Some have "match_from None s = Some (g, p)" unfolding url_match_def Let_def by simp
    then show ?thesis by (rule match_from_fst)
  next
    case (Some x)
    with sp m \<open>strip_prefix ''//'' s = Some r'\<close> have "match_from None r' = Some (g, p)"
      unfolding url_match_def Let_def by simp
    then show ?thesis by (rule match_from_fst)
  qed
qed

lemma url_match_scheme:
  assumes "url_match s = Some (Some g, p)"
  shows "declares_scheme s"
proof (cases "scheme_prefix s")
  case None
  from url_match_no_scheme[OF None assms] show ?thesis by simp
next
  case (Some x)
  then show ?thesis by (rule scheme_prefix_declares)
qed

lemma parse_strict_Some:
  "parse_strict U r = Some h \<Longrightarrow> \<exists>u. U r None = Some u \<and> hostname u \<noteq> [] \<and> href u = h"
  unfolding parse_strict_def by (auto split: option.splits if_splits)

text \<open>
  Claim C8. The resolver called without a base: a reference that declares an
  \<open>http\<close> or \<open>https\<close> scheme is never rewritten, so when the strict parser (the
  platform's \<open>URL\<close>) refuses it the result is \<open>null\<close>; a scheme-less reference that
  the pattern accepts is parsed after \<open>//\<close> has been put in front of it, unless it
  starts with \<open>//\<close>, and after the scheme \<open>https:\<close> when the port group of the pattern
  is \<open>443\<close>, \<open>http:\<close> otherwise (\<open>inferred\<close>). For a reference written as
  \<open>host\<close>, \<open>host:port\<close>, \<open>//host\<close> or \<open>//host:port\<close> (at most five digits), followed
  by nothing or by a path or query, the port group is the written port, so the scheme is
  \<open>https\<close> exactly when the written port is \<open>443\<close>. Every result that is not
  \<open>null\<close> is the \<open>href\<close> of a parsed URL with a hostname. (A scheme-less reference
  that the pattern does not accept, such as one that starts with a single \<open>/\<close>, is
  \<open>null\<close> before any scheme is inferred.)
\<close>

theorem parseURL_without_base:
  "(declares_scheme s \<and> U s None = None \<longrightarrow> parseURL U s None = Inr None)
   \<and> (declares_scheme s \<longrightarrow>
        parseURL U s None = Inr None \<or> parseURL U s None = Inr (parse_strict U s))
   \<and> (\<not> declares_scheme s \<and> url_match s = Some (scheme, port) \<longrightarrow>
        parseURL U s None = Inr (parse_strict U (inferred port s)))
   \<and> (\<not> declares_scheme (sl @ host @ pp @ tl1)
        \<and> (sl = [] \<or> sl = ''//'')
        \<and> host \<noteq> [] \<and> (\<forall>c \<in> set host. c \<noteq> CHR ''/'' \<and> c \<noteq> CHR ''?'' \<and> c \<noteq> CHR '':'')
        \<and> (pp = [] \<or> (\<exists>p. pp = CHR '':'' # p \<and> list_all is_digit p \<and> length p \<le> 5))
        \<and> (tl1 = [] \<or> hd tl1 = CHR ''/'' \<or> hd tl1 = CHR ''?'') \<longrightarrow>
        parseURL U (sl @ host @ pp @ tl1) None
          = Inr (parse_strict U ((if pp = '':443'' then ''https:'' else ''http:'')
                                  @ ''//'' @ host @ pp @ tl1)))
   \<and> (parseURL U s None = Inr (Some h) \<longrightarrow>
        (\<exists>r u. (r = s \<or> (\<exists>port. r = inferred port s))
           \<and> U r None = Some u \<and> hostname u \<noteq> [] \<and> href u = h))"
proof (intro conjI impI)
  show a: "parseURL U s None = Inr None \<or> parseURL U s None = Inr (parse_strict U s)"
    if "declares_scheme s"
  proof (cases "url_match s")
    case None
    then show ?thesis unfolding parseURL_def by simp
  next
    case (Some m)
    obtain sc port where m: "m = (sc, port)" by (cases m)
    from that Some m show ?thesis unfolding parseURL_def by simp
  qed
  show "parseURL U s None = Inr None" if "declares_scheme s \<and> U s None = None"
  proof -
    from that have "parse_strict U s = None" by (simp add: parse_strict_def)
    with a that show ?thesis by auto
  qed
  show "parseURL U s None = Inr (parse_strict U (inferred port s))"
    if "\<not> declares_scheme s \<and> url_match s = Some (scheme, port)"
  proof -
    from that url_match_scheme[of s] have "scheme = None" by (cases scheme) auto
    with that show ?thesis unfolding parseURL_def by simp
  qed
  show "parseURL U (sl @ host @ pp @ tl1) None
          = Inr (parse_strict U ((if pp = '':443'' then ''https:'' else ''http:'')
                                  @ ''//'' @ host @ pp @ tl1))"
    if h: "\<not> declares_scheme (sl @ host @ pp @ tl1)
        \<and> (sl = [] \<or> sl = ''//'')
        \<and> host \<noteq> [] \<and> (\<forall>c \<in> set host. c \<noteq> CHR ''/'' \<and> c \<noteq> CHR ''?'' \<and> c \<noteq> CHR '':'')
        \<and> (pp = [] \<or> (\<exists>p. pp = CHR '':'' # p \<and> list_all is_digit p \<and> length p \<le> 5))
        \<and> (tl1 = [] \<or> hd tl1 = CHR ''/'' \<or> hd tl1 = CHR ''?'')"
  proof -
    let ?s = "sl @ host @ pp @ tl1"
    from h have h1: "\<not> declares_scheme ?s" and h2: "sl = [] \<or> sl = ''//''"
      and h3: "host \<noteq> []" and h4: "\<forall>c \<in> set host. c \<noteq> CHR ''/'' \<and> c \<noteq> CHR ''?'' \<and> c \<noteq> CHR '':''"
      and h5: "pp = [] \<or> (\<exists>p. pp = CHR '':'' # p \<and> list_all is_digit p \<and> length p \<le> 5)"
      and h6: "tl1 = [] \<or> hd tl1 = CHR ''/'' \<or> hd tl1 = CHR ''?''"
      by blast+
    have m: "url_match ?s = Some (None, written_port pp)"
      by (rule url_match_written[OF h1 h2 h3 h4 h5 h6])
    obtain c hh where hc: "host = c # hh" using h3 by (cases host) auto
    have c: "c \<noteq> CHR ''/''" using h4 hc by simp
    have sw: "startsWith ?s ''//'' \<longleftrightarrow> sl = ''//''"
    proof (cases "sl = []")
      case True
      then show ?thesis unfolding startsWith_def hc using c by simp
    next
      case False
      with h2 have e: "sl = ''//''" by simp
      have "strip_prefix ''//'' (''//'' @ host @ pp @ tl1) = Some (host @ pp @ tl1)"
        by (rule strip_prefix_append)
      then show ?thesis unfolding startsWith_def e by simp
    qed
    have wp: "written_port pp = Some ''443'' \<longleftrightarrow> pp = '':443''"
      using h5 by (auto simp: written_port_def)
    have "inferred (written_port pp) ?s
        = (if pp = '':443'' then ''https:'' else ''http:'') @ ''//'' @ host @ pp @ tl1"
      unfolding inferred_def sw wp using h2 by auto
    with m h1 show ?thesis unfolding parseURL_def by simp
  qed
  show "\<exists>r u. (r = s \<or> (\<exists>port. r = inferred port s))
           \<and> U r None = Some u \<and> hostname u \<noteq> [] \<and> href u = h"
    if "parseURL U s None = Inr (Some h)"
  proof (cases "url_match s")
    case None
    with that show ?thesis unfolding parseURL_def by simp
  next
    case (Some m)
    obtain sc port where m: "m = (sc, port)" by (cases m)
    from that Some m have "parse_strict U (inferred port s) = Some h \<or> parse_strict U s = Some h"
      unfolding parseURL_def by (simp split: if_splits)
    then show ?thesis
    proof
      assume "parse_strict U (inferred port s) = Some h"
      from parse_strict_Some[OF this] show ?thesis by blast
    next
      assume "parse_strict U s = Some h"
      from parse_strict_Some[OF this] show ?thesis by blast
    qed
  qed
qed

lemma demo_schemes:
  "declares_scheme ''http://a b/''"
  "\<not> declares_scheme ''example.com:443/path''"
  "\<not> declares_scheme ''//example.com:8080/path''"
  "url_match ''example.com:443/path'' = Some (None, Some ''443'')"
  by code_simp+

lemma demo_URL_values:
  "demo_URL ''http://a b/'' None = None"
  "parse_strict demo_URL ''https://example.com:443/path'' = Some ''https://example.com/path''"
  "parse_strict demo_URL ''http://example.com:8080/path'' = Some ''http://example.com:8080/path''"
  by (simp_all add: demo_URL_def parse_strict_def)

theorem parseURL_without_base_witness:
  "parseURL demo_URL ''http://a b/'' None = Inr None
   \<and> parseURL demo_URL ''example.com:443/path'' None = Inr (Some ''https://example.com/path'')
   \<and> parseURL demo_URL ''//example.com:8080/path'' None = Inr (Some ''http://example.com:8080/path'')
   \<and> (\<exists>r u. demo_URL r None = Some u \<and> hostname u \<noteq> [] \<and> href u = ''https://example.com/path'')"
proof -
  have d: "list_all is_digit ''443''" "list_all is_digit ''8080''" by (simp_all add: is_digit_def)
  note a = parseURL_without_base [where U = demo_URL and s = "''http://a b/''"
      and sl = "[]" and host = "''example.com''" and pp = "'':443''" and ?tl1.0 = "''/path''"]
  note b = parseURL_without_base [where U = demo_URL and s = "''example.com:443/path''"
      and scheme = None and port = "Some ''443''" and h = "''https://example.com/path''"
      and sl = "''//''" and host = "''example.com''" and pp = "'':8080''" and ?tl1.0 = "''/path''"]
  from a have 1: "parseURL demo_URL ''http://a b/'' None = Inr None"
    using demo_schemes(1) demo_URL_values(1) by blast
  from a have 2: "parseURL demo_URL ''example.com:443/path'' None = Inr (Some ''https://example.com/path'')"
    using demo_schemes(2) d(1) demo_URL_values(2) by simp
  from b have 3: "parseURL demo_URL ''//example.com:8080/path'' None = Inr (Some ''http://example.com:8080/path'')"
    using demo_schemes(3) d(2) demo_URL_values(3) by simp
  from b 2 have 4: "\<exists>r u. demo_URL r None = Some u \<and> hostname u \<noteq> [] \<and> href u = ''https://example.com/path''"
    by blast
  from 1 2 3 4 show ?thesis by blast
qed

section \<open>Verification: base64\<close>

lemma index_of_nth: "distinct xs \<Longrightarrow> i < length xs \<Longrightarrow> index_of xs (xs ! i) = i"
proof (induction xs arbitrary: i)
  case Nil
  then show ?case by simp
next
  case (Cons x xs)
  show ?case
  proof (cases i)
    case 0
    then show ?thesis by simp
  next
    case (Suc j)
    with Cons.prems have j: "j < length xs" and "xs ! j \<in> set xs" by auto
    with Cons.prems have "xs ! j \<noteq> x" by auto
    with Cons.IH[of j] Cons.prems j Suc show ?thesis by simp
  qed
qed

lemma b64_alphabet_length: "length b64_alphabet = 64"
  by (simp add: b64_alphabet_def)

lemma b64_alphabet_distinct: "distinct b64_alphabet"
  by (simp add: b64_alphabet_def)

lemma b64_val_char: "n < 64 \<Longrightarrow> b64_val (b64_char n) = n"
  unfolding b64_val_def b64_char_def
  using index_of_nth[OF b64_alphabet_distinct, of n] by (simp add: b64_alphabet_length)

lemma b64_char_mem: "b64_char n \<in> set b64_alphabet"
  unfolding b64_char_def by (rule nth_mem) (simp add: b64_alphabet_length)

lemma b64_char_not_pad: "b64_char n \<noteq> CHR ''=''"
proof -
  have "CHR ''='' \<notin> set b64_alphabet" by (simp add: b64_alphabet_def)
  with b64_char_mem[of n] show ?thesis by auto
qed

lemma of_char_lt: "(of_char c :: nat) < 256"
  by (metis of_char_mod_256 mod_less_divisor zero_less_numeral)

lemma sextet1: "(x::nat) mod 4 * 16 < 64"
proof -
  have "x mod 4 < 4" by simp
  then show ?thesis by linarith
qed

lemma sextet2: "y < 256 \<Longrightarrow> (x::nat) mod 4 * 16 + y div 16 < 64"
proof -
  assume "y < 256"
  then have "y div 16 < 16" by (simp add: less_mult_imp_div_less)
  moreover have "x mod 4 < 4" by simp
  ultimately show ?thesis by linarith
qed

lemma sextet3: "(y::nat) mod 16 * 4 < 64"
proof -
  have "y mod 16 < 16" by simp
  then show ?thesis by linarith
qed

lemma sextet4: "z < 256 \<Longrightarrow> (y::nat) mod 16 * 4 + z div 64 < 64"
proof -
  assume "z < 256"
  then have "z div 64 < 4" by (simp add: less_mult_imp_div_less)
  moreover have "y mod 16 < 16" by simp
  ultimately show ?thesis by linarith
qed

lemma byte_parts:
  fixes y :: nat
  assumes "y < 256"
  shows "y div 16 div 16 = 0" "y div 16 mod 16 = y div 16" "y div 64 div 4 = 0"
    "y div 64 mod 4 = y div 64"
proof -
  have a: "y div 16 < 16" and b: "y div 64 < 4" using assms by (simp_all add: less_mult_imp_div_less)
  from a show "y div 16 div 16 = 0" "y div 16 mod 16 = y div 16" by simp_all
  from b show "y div 64 div 4 = 0" "y div 64 mod 4 = y div 64" by simp_all
qed

lemma base64_roundtrip: "base64_decode (base64 s) = s"
proof (induction s rule: base64.induct)
  case 1
  show ?case by simp
next
  case (2 a)
  define x where "x = (of_char a :: nat)"
  have x: "x < 256" unfolding x_def by (rule of_char_lt)
  have cx: "char_of x = a" by (simp add: x_def)
  have v1: "b64_val (b64_char (x div 4)) = x div 4" using x by (intro b64_val_char) simp
  have v2: "b64_val (b64_char (x mod 4 * 16)) = x mod 4 * 16" by (rule b64_val_char) (rule sextet1)
  show ?case
    by (simp add: Let_def x_def[symmetric] v1 v2 b64_char_not_pad cx)
next
  case (3 a b)
  define x where "x = (of_char a :: nat)"
  define y where "y = (of_char b :: nat)"
  have x: "x < 256" and y: "y < 256" unfolding x_def y_def by (rule of_char_lt)+
  have cx: "char_of x = a" "char_of y = b" by (simp_all add: x_def y_def)
  have v1: "b64_val (b64_char (x div 4)) = x div 4" using x by (intro b64_val_char) simp
  have v2: "b64_val (b64_char (x mod 4 * 16 + y div 16)) = x mod 4 * 16 + y div 16"
    by (rule b64_val_char) (rule sextet2[OF y])
  have v3: "b64_val (b64_char (y mod 16 * 4)) = y mod 16 * 4" by (rule b64_val_char) (rule sextet3)
  show ?case
    by (simp add: Let_def x_def[symmetric] y_def[symmetric] v1 v2 v3 b64_char_not_pad cx
          byte_parts[OF y])
next
  case (4 a b c rest)
  define x where "x = (of_char a :: nat)"
  define y where "y = (of_char b :: nat)"
  define z where "z = (of_char c :: nat)"
  have x: "x < 256" and y: "y < 256" and z: "z < 256" unfolding x_def y_def z_def by (rule of_char_lt)+
  have cx: "char_of x = a" "char_of y = b" "char_of z = c" by (simp_all add: x_def y_def z_def)
  have v1: "b64_val (b64_char (x div 4)) = x div 4" using x by (intro b64_val_char) simp
  have v2: "b64_val (b64_char (x mod 4 * 16 + y div 16)) = x mod 4 * 16 + y div 16"
    by (rule b64_val_char) (rule sextet2[OF y])
  have v3: "b64_val (b64_char (y mod 16 * 4 + z div 64)) = y mod 16 * 4 + z div 64"
    by (rule b64_val_char) (rule sextet4[OF z])
  have v4: "b64_val (b64_char (z mod 64)) = z mod 64" by (intro b64_val_char) simp
  show ?case
    by (simp add: Let_def x_def[symmetric] y_def[symmetric] z_def[symmetric] v1 v2 v3 v4
          b64_char_not_pad cx byte_parts[OF y] byte_parts[OF z] "4.IH")
qed

lemma base64_chars: "set (base64 s) \<subseteq> insert (CHR ''='') (set b64_alphabet)"
  by (induction s rule: base64.induct) (auto simp: Let_def b64_char_mem)

lemma base64_inj: "base64 a = base64 b \<Longrightarrow> a = b"
  by (metis base64_roundtrip)

section \<open>Verification: the playlist rewrite\<close>

lemma mem_plain:
  assumes "c \<in> set xs" and "CHR 0x0A \<notin> set xs" and "CHR ''$'' \<notin> set xs"
  shows "plain c"
  using assms unfolding plain_def by blast

lemma hex_digit_plain: "plain (hex_digit n)"
proof (rule mem_plain)
  show "hex_digit n \<in> set ''0123456789ABCDEF''"
    unfolding hex_digit_def by (rule nth_mem) simp
qed simp_all

lemma unreserved_plain: "uri_unreserved c \<Longrightarrow> plain c"
  unfolding uri_unreserved_def by (erule mem_plain) simp_all

lemma percent_byte_plain: "c' \<in> set (percent_byte c) \<Longrightarrow> plain c'"
proof (cases "uri_unreserved c")
  case True
  assume "c' \<in> set (percent_byte c)"
  with True have "c' = c" by (simp add: percent_byte_def)
  with True show ?thesis by (simp add: unreserved_plain)
next
  case False
  assume "c' \<in> set (percent_byte c)"
  with False have "c' = CHR ''%'' \<or> c' = hex_digit (of_char c div 16) \<or> c' = hex_digit (of_char c mod 16)"
    by (simp add: percent_byte_def)
  moreover have "plain CHR ''%''" by (simp add: plain_def)
  ultimately show ?thesis using hex_digit_plain by blast
qed

lemma encodeURIComponent_plain: "c \<in> set (encodeURIComponent s) \<Longrightarrow> plain c"
proof -
  assume "c \<in> set (encodeURIComponent s)"
  then obtain b where "c \<in> set (percent_byte b)" unfolding encodeURIComponent_def by auto
  then show "plain c" by (rule percent_byte_plain)
qed

lemma b64_alphabet_plain:
  "CHR 0x0A \<notin> set b64_alphabet" "CHR ''$'' \<notin> set b64_alphabet" "CHR ''&'' \<notin> set b64_alphabet"
  by (simp_all add: b64_alphabet_def)

lemma base64_plain: "c \<in> set (base64 s) \<Longrightarrow> plain c"
proof -
  assume "c \<in> set (base64 s)"
  with base64_chars[of s] have "c = CHR ''='' \<or> c \<in> set b64_alphabet" by blast
  moreover have "plain CHR ''=''" by (simp add: plain_def)
  ultimately show "plain c" using mem_plain[OF _ b64_alphabet_plain(1,2)] by blast
qed

lemma base64_no_amp: "c \<in> set (base64 s) \<Longrightarrow> c \<noteq> CHR ''&''"
proof -
  assume "c \<in> set (base64 s)"
  with base64_chars[of s] have "c = CHR ''='' \<or> c \<in> set b64_alphabet" by blast
  then show ?thesis using b64_alphabet_plain(3) by auto
qed

lemma proxy_url_plain: "c \<in> set (proxy_url h t) \<Longrightarrow> plain c"
proof -
  assume "c \<in> set (proxy_url h t)"
  then have "c \<in> set ''/s?u=&headers=&lb=local'' \<or> c \<in> set (base64 t) \<or> c \<in> set (encodeURIComponent h)"
    unfolding proxy_url_def by auto
  moreover have "c \<in> set ''/s?u=&headers=&lb=local'' \<Longrightarrow> plain c"
    by (erule mem_plain) simp_all
  ultimately show "plain c" using base64_plain encodeURIComponent_plain by blast
qed

lemma query_u_proxy_url: "query_u (proxy_url h t) = Some (base64 t)"
proof -
  have d: "dropWhile (\<lambda>c. c \<noteq> CHR ''?'') (proxy_url h t)
      = ''?u='' @ (base64 t @ ''&headers='' @ encodeURIComponent h @ ''&lb=local'')"
    unfolding proxy_url_def by simp
  have "takeWhile (\<lambda>c. c \<noteq> CHR ''&'') (base64 t @ ''&headers='' @ encodeURIComponent h @ ''&lb=local'')
      = base64 t @ takeWhile (\<lambda>c. c \<noteq> CHR ''&'') (''&headers='' @ encodeURIComponent h @ ''&lb=local'')"
    by (rule takeWhile_append2) (rule base64_no_amp)
  then have t: "takeWhile (\<lambda>c. c \<noteq> CHR ''&'') (base64 t @ ''&headers='' @ encodeURIComponent h @ ''&lb=local'')
      = base64 t" by simp
  show ?thesis unfolding query_u_def d strip_prefix_append using t by simp
qed

lemma proxy_url_inj: "proxy_url h t = proxy_url h t' \<Longrightarrow> t = t'"
proof -
  assume "proxy_url h t = proxy_url h t'"
  then have "query_u (proxy_url h t) = query_u (proxy_url h t')" by simp
  then have "base64 t = base64 t'" by (simp add: query_u_proxy_url)
  then show "t = t'" by (rule base64_inj)
qed

lemma proxy_url_prefix: "startsWith (proxy_url h t) ''/s?u=''"
  unfolding startsWith_def proxy_url_def by simp

lemma expand_plain: "CHR ''$'' \<notin> set rep \<Longrightarrow> expand pre m post rep = rep"
  by (induction pre m post rep rule: expand.induct) auto

lemma replace_at_chars:
  "CHR ''$'' \<notin> set rep \<Longrightarrow> set (replace_at pre s pat rep) \<subseteq> set pre \<union> set s \<union> set rep"
proof (induction s arbitrary: pre)
  case Nil
  then show ?case by (simp add: expand_plain)
next
  case (Cons c s)
  show ?case
  proof (cases "strip_prefix pat (c # s)")
    case None
    with Cons.IH[OF Cons.prems, of "pre @ [c]"] show ?thesis by auto
  next
    case (Some post)
    then have "c # s = pat @ post" by (simp only: strip_prefix_Some)
    then have "set post \<subseteq> set (c # s)" by (metis set_append sup_ge2)
    with Some Cons.prems show ?thesis by (auto simp: expand_plain)
  qed
qed

lemma rewrite_tag_plain:
  assumes "\<forall>c \<in> set line. c \<noteq> CHR 0x0A"
  shows "\<forall>c \<in> set (rewrite_tag h line). c \<noteq> CHR 0x0A"
proof (cases "find_url line")
  case None
  with assms show ?thesis by (simp add: rewrite_tag_def)
next
  case (Some keyUrl)
  have d: "CHR ''$'' \<notin> set (proxy_url h keyUrl)" using proxy_url_plain[of "CHR ''$''" h keyUrl]
    by (auto simp: plain_def)
  have n: "CHR 0x0A \<notin> set (proxy_url h keyUrl)" using proxy_url_plain[of "CHR 0x0A" h keyUrl]
    by (auto simp: plain_def)
  from replace_at_chars[OF d, of "[]" line keyUrl] assms n
  show ?thesis unfolding rewrite_tag_def Some js_replace_def by auto
qed

lemma rewrite_line_shape:
  assumes "rewrite_line U m h url line = Inr new"
  shows "new = line \<or> new = rewrite_tag h line \<or> (\<exists>t. new = proxy_url h t)"
proof (cases "startsWith line ''#''")
  case True
  then have "rewrite_line U m h url line = Inr line \<or> rewrite_line U m h url line = Inr (rewrite_tag h line)"
    unfolding rewrite_line_def by simp
  with assms show ?thesis by auto
next
  case False
  show ?thesis
  proof (cases "blank line")
    case True
    with False assms show ?thesis unfolding rewrite_line_def by simp
  next
    case nb: False
    show ?thesis
    proof (cases "parseURL U line (Some url)")
      case (Inl e)
      with False nb assms show ?thesis unfolding rewrite_line_def by simp
    next
      case (Inr r)
      show ?thesis
      proof (cases r)
        case None
        with Inr False nb assms show ?thesis unfolding rewrite_line_def by simp
      next
        case (Some t)
        with Inr False nb have "rewrite_line U m h url line = Inr line \<or> rewrite_line U m h url line = Inr (proxy_url h t)"
          unfolding rewrite_line_def by simp
        with assms show ?thesis by auto
      qed
    qed
  qed
qed

lemma rewrite_line_plain:
  assumes "\<forall>c \<in> set line. c \<noteq> CHR 0x0A" and "rewrite_line U m h url line = Inr new"
  shows "\<forall>c \<in> set new. c \<noteq> CHR 0x0A"
proof -
  have p: "\<forall>c \<in> set (proxy_url h t). c \<noteq> CHR 0x0A" for t
  proof
    fix c assume "c \<in> set (proxy_url h t)"
    then have "plain c" by (rule proxy_url_plain)
    then show "c \<noteq> CHR 0x0A" by (simp add: plain_def)
  qed
  from rewrite_line_shape[OF assms(2)]
  consider "new = line" | "new = rewrite_tag h line" | t where "new = proxy_url h t" by blast
  then show ?thesis
  proof cases
    case 1
    with assms(1) show ?thesis by simp
  next
    case 2
    with rewrite_tag_plain[OF assms(1)] show ?thesis by simp
  next
    case 3
    with p show ?thesis by simp
  qed
qed

lemma split_nl_nonempty: "split_nl s \<noteq> []"
  by (induction s) (auto split: list.splits)

lemma split_nl_plain: "\<forall>l \<in> set (split_nl s). \<forall>c \<in> set l. c \<noteq> CHR 0x0A"
proof (induction s)
  case Nil
  show ?case by simp
next
  case (Cons a s)
  show ?case
  proof (cases "a = CHR 0x0A")
    case True
    with Cons show ?thesis by simp
  next
    case False
    show ?thesis
    proof (cases "split_nl s")
      case Nil
      with False show ?thesis by simp
    next
      case (Cons l ls)
      with Cons.IH False show ?thesis by simp
    qed
  qed
qed

lemma split_join:
  "ls \<noteq> [] \<Longrightarrow> \<forall>l \<in> set ls. \<forall>c \<in> set l. c \<noteq> CHR 0x0A \<Longrightarrow> split_nl (join_nl ls) = ls"
proof (induction ls rule: join_nl.induct)
  case 1
  then show ?case by simp
next
  case (2 l)
  then have "\<forall>c \<in> set l. c \<noteq> CHR 0x0A" by simp
  then have "split_nl l = [l]" by (induction l) auto
  then show ?case by simp
next
  case (3 l l' ls)
  then have IH: "split_nl (join_nl (l' # ls)) = l' # ls" by simp
  from 3 have "\<forall>c \<in> set l. c \<noteq> CHR 0x0A" by simp
  then have "split_nl (l @ CHR 0x0A # join_nl (l' # ls)) = l # split_nl (join_nl (l' # ls))"
    by (induction l) (auto split: list.splits)
  with IH show ?case by simp
qed

lemma rewrite_lines_Inr:
  "rewrite_lines f ls = Inr news \<Longrightarrow>
     length news = length ls \<and> (\<forall>i < length ls. f (ls ! i) = Inr (news ! i))"
proof (induction ls arbitrary: news)
  case Nil
  then show ?case by simp
next
  case (Cons l ls)
  from Cons.prems obtain n ns where n: "f l = Inr n" and ns: "rewrite_lines f ls = Inr ns"
    and e: "news = n # ns"
    by (auto split: sum.splits)
  from Cons.IH[OF ns] have len: "length ns = length ls"
    and nth: "\<forall>i < length ls. f (ls ! i) = Inr (ns ! i)" by simp_all
  show ?case unfolding e using len nth n by (auto simp: nth_Cons split: nat.splits)
qed

lemma rewritePlaylist_lines:
  assumes "rewritePlaylist U h url content = Inr out"
  shows "length (split_nl out) = length (split_nl content)
     \<and> (\<forall>i < length (split_nl content).
          rewrite_line U (includes_str content ''RESOLUTION='') h url (split_nl content ! i)
            = Inr (split_nl out ! i))"
proof -
  let ?f = "rewrite_line U (includes_str content ''RESOLUTION='') h url"
  from assms obtain news where r: "rewrite_lines ?f (split_nl content) = Inr news"
    and out: "out = join_nl news"
    unfolding rewritePlaylist_def Let_def by (auto split: sum.splits)
  from rewrite_lines_Inr[OF r] have len: "length news = length (split_nl content)"
    and nth: "\<forall>i < length (split_nl content). ?f (split_nl content ! i) = Inr (news ! i)" by simp_all
  have ne: "news \<noteq> []" using len split_nl_nonempty[of content] by auto
  have pl: "\<forall>l \<in> set news. \<forall>c \<in> set l. c \<noteq> CHR 0x0A"
  proof
    fix l assume "l \<in> set news"
    then obtain i where i: "i < length news" "news ! i = l" by (auto simp: in_set_conv_nth)
    with len nth have fi: "?f (split_nl content ! i) = Inr l" by simp
    have "\<forall>c \<in> set (split_nl content ! i). c \<noteq> CHR 0x0A"
      using split_nl_plain[of content] i(1) len by (metis nth_mem)
    from rewrite_line_plain[OF this fi] show "\<forall>c \<in> set l. c \<noteq> CHR 0x0A" .
  qed
  have "split_nl out = news" unfolding out by (rule split_join[OF ne pl])
  with len nth show ?thesis by simp
qed

text \<open>
  Claim C4, as the code has it. A line that is not blank (\<open>line.trim()\<close> is not empty)
  and does not start with \<open>#\<close>, and that the resolver resolves against the request's
  URL to a non-empty URL, is replaced by a proxy URL: it starts with \<open>/s?u=\<close>, its
  parameter \<open>u\<close> is the base64 text of the resolved URL, and decoding that text gives
  the resolved URL back. Different resolved URLs give different proxy URLs. In the text
  that \<open>rewritePlaylist\<close> returns, the proxy URL stands at the line's index. The
  witness is the scenario with \<open>seg1.ts\<close> and \<open>seg2.ts\<close>. A line of white space only
  is not empty, resolves (to the base), and yet is passed through as it is: the
  counterexample is a line that holds one carriage return.
\<close>

theorem segment_line_rewrite:
  assumes nb: "\<not> blank line" and nh: "\<not> startsWith line ''#''"
    and res: "parseURL U line (Some url) = Inr (Some resolved)" and ne: "resolved \<noteq> []"
  shows "rewrite_line U master headersJson url line = Inr (proxy_url headersJson resolved)
     \<and> startsWith (proxy_url headersJson resolved) ''/s?u=''
     \<and> query_u (proxy_url headersJson resolved) = Some (base64 resolved)
     \<and> base64_decode (base64 resolved) = resolved
     \<and> (resolved' \<noteq> resolved \<longrightarrow>
          proxy_url headersJson resolved' \<noteq> proxy_url headersJson resolved)
     \<and> (rewritePlaylist U headersJson url content = Inr out
          \<and> i < length (split_nl content) \<and> split_nl content ! i = line \<longrightarrow>
          split_nl out ! i = proxy_url headersJson resolved)"
proof (intro conjI impI)
  show r: "rewrite_line U m headersJson url line = Inr (proxy_url headersJson resolved)" for m
    using nb nh res ne unfolding rewrite_line_def by simp
  show "startsWith (proxy_url headersJson resolved) ''/s?u=''" by (rule proxy_url_prefix)
  show "query_u (proxy_url headersJson resolved) = Some (base64 resolved)" by (rule query_u_proxy_url)
  show "base64_decode (base64 resolved) = resolved" by (rule base64_roundtrip)
  show "proxy_url headersJson resolved' \<noteq> proxy_url headersJson resolved"
    if "resolved' \<noteq> resolved"
    using that proxy_url_inj by blast
  show "split_nl out ! i = proxy_url headersJson resolved"
    if h: "rewritePlaylist U headersJson url content = Inr out
          \<and> i < length (split_nl content) \<and> split_nl content ! i = line"
  proof -
    from h rewritePlaylist_lines[of U headersJson url content out]
    have "rewrite_line U (includes_str content ''RESOLUTION='') headersJson url line = Inr (split_nl out ! i)"
      by auto
    with r show ?thesis by simp
  qed
qed

lemma scenario_facts:
  "\<not> blank ''seg1.ts''" "\<not> blank ''seg2.ts''"
  "\<not> startsWith ''seg1.ts'' ''#''" "\<not> startsWith ''seg2.ts'' ''#''"
  "parseURL demo_URL ''seg1.ts'' (Some demo_base) = Inr (Some ''http://host/a/seg1.ts'')"
  "parseURL demo_URL ''seg2.ts'' (Some demo_base) = Inr (Some ''http://host/a/seg2.ts'')"
  "rewritePlaylist demo_URL ''{}'' demo_base scenario_playlist = Inr scenario_rewritten"
  "split_nl scenario_playlist ! 2 = ''seg1.ts''" "split_nl scenario_playlist ! 4 = ''seg2.ts''"
  "length (split_nl scenario_playlist) = 6"
  by code_simp+

theorem segment_line_rewrite_witness:
  "rewritePlaylist demo_URL ''{}'' demo_base scenario_playlist = Inr scenario_rewritten
   \<and> split_nl scenario_rewritten ! 2 = proxy_url ''{}'' ''http://host/a/seg1.ts''
   \<and> split_nl scenario_rewritten ! 4 = proxy_url ''{}'' ''http://host/a/seg2.ts''
   \<and> map_option base64_decode (query_u (split_nl scenario_rewritten ! 2)) = Some ''http://host/a/seg1.ts''
   \<and> map_option base64_decode (query_u (split_nl scenario_rewritten ! 4)) = Some ''http://host/a/seg2.ts''
   \<and> split_nl scenario_rewritten ! 2 \<noteq> split_nl scenario_rewritten ! 4"
proof -
  note a = segment_line_rewrite [OF scenario_facts(1) scenario_facts(3) scenario_facts(5),
      where headersJson = "''{}''" and resolved' = "''http://host/a/seg2.ts''"
        and content = scenario_playlist and out = scenario_rewritten and i = 2 and master = False]
  note b = segment_line_rewrite [OF scenario_facts(2) scenario_facts(4) scenario_facts(6),
      where headersJson = "''{}''" and resolved' = "''http://host/a/seg1.ts''"
        and content = scenario_playlist and out = scenario_rewritten and i = 4 and master = False]
  from a have 2: "split_nl scenario_rewritten ! 2 = proxy_url ''{}'' ''http://host/a/seg1.ts''"
    and q2: "query_u (proxy_url ''{}'' ''http://host/a/seg1.ts'') = Some (base64 ''http://host/a/seg1.ts'')"
    and d2: "base64_decode (base64 ''http://host/a/seg1.ts'') = ''http://host/a/seg1.ts''"
    and n: "proxy_url ''{}'' ''http://host/a/seg2.ts'' \<noteq> proxy_url ''{}'' ''http://host/a/seg1.ts''"
    using scenario_facts(7,8,10) by simp_all
  from b have 4: "split_nl scenario_rewritten ! 4 = proxy_url ''{}'' ''http://host/a/seg2.ts''"
    and q4: "query_u (proxy_url ''{}'' ''http://host/a/seg2.ts'') = Some (base64 ''http://host/a/seg2.ts'')"
    and d4: "base64_decode (base64 ''http://host/a/seg2.ts'') = ''http://host/a/seg2.ts''"
    using scenario_facts(7,9,10) by simp_all
  show ?thesis using scenario_facts(7) 2 4 q2 q4 d2 d4 n by simp
qed

theorem blank_line_counterexample:
  "[CHR 0x0D] \<noteq> [] \<and> \<not> startsWith [CHR 0x0D] ''#''
   \<and> parseURL demo_URL [CHR 0x0D] (Some demo_base) = Inr (Some ''http://host/a/index.m3u8'')
   \<and> rewrite_line demo_URL False ''{}'' demo_base [CHR 0x0D] = Inr [CHR 0x0D]
   \<and> query_u [CHR 0x0D] = None
   \<and> split_nl crlf_playlist = [''#EXTM3U'' @ [CHR 0x0D], [CHR 0x0D], []]
   \<and> rewritePlaylist demo_URL ''{}'' demo_base crlf_playlist = Inr crlf_playlist"
  by code_simp


lemma rewritePlaylist_structure:
  assumes "rewritePlaylist U h url content = Inr out"
  shows "length (split_nl out) = length (split_nl content)
     \<and> (\<forall>i < length (split_nl content).
          split_nl content ! i = []
          \<or> (startsWith (split_nl content ! i) ''#''
              \<and> \<not> startsWith (split_nl content ! i) ''#EXT-X-KEY:''
              \<and> \<not> (includes_str content ''RESOLUTION='' \<and> startsWith (split_nl content ! i) ''#EXT-X-MEDIA:''))
          \<longrightarrow> split_nl out ! i = split_nl content ! i)"
proof (intro conjI allI impI)
  from rewritePlaylist_lines[OF assms]
  show "length (split_nl out) = length (split_nl content)" by simp
  fix i assume i: "i < length (split_nl content)"
  let ?l = "split_nl content ! i" and ?m = "includes_str content ''RESOLUTION=''"
  assume c: "?l = [] \<or> (startsWith ?l ''#'' \<and> \<not> startsWith ?l ''#EXT-X-KEY:''
              \<and> \<not> (?m \<and> startsWith ?l ''#EXT-X-MEDIA:''))"
  from rewritePlaylist_lines[OF assms] i
  have r: "rewrite_line U ?m h url ?l = Inr (split_nl out ! i)" by simp
  from c have "rewrite_line U ?m h url ?l = Inr ?l"
  proof
    assume e: "?l = []"
    have "\<not> startsWith [] ''#''" "blank []" by (simp_all add: startsWith_def blank_def)
    then show ?thesis unfolding e rewrite_line_def by simp
  next
    assume "startsWith ?l ''#'' \<and> \<not> startsWith ?l ''#EXT-X-KEY:''
              \<and> \<not> (?m \<and> startsWith ?l ''#EXT-X-MEDIA:'')"
    then show ?thesis unfolding rewrite_line_def by auto
  qed
  with r show "split_nl out ! i = ?l" by simp
qed

lemma rewrite_lines_total:
  "\<forall>l \<in> set ls. \<exists>n. f l = Inr n \<Longrightarrow> \<exists>news. rewrite_lines f ls = Inr news"
  by (induction ls) auto

lemma rewritePlaylist_total:
  assumes "\<forall>l \<in> set (split_nl content). \<not> blank l \<and> \<not> startsWith l ''#'' \<longrightarrow> U l (Some url) \<noteq> None"
    and "url \<noteq> []"
  shows "\<exists>out. rewritePlaylist U h url content = Inr out"
proof -
  let ?m = "includes_str content ''RESOLUTION=''"
  have "\<exists>n. rewrite_line U ?m h url l = Inr n" if l: "l \<in> set (split_nl content)" for l
  proof (cases "\<not> blank l \<and> \<not> startsWith l ''#''")
    case True
    with assms(1) l obtain u where "U l (Some url) = Some u" by auto
    with assms(2) have "parseURL U l (Some url) = Inr (Some (href u))" unfolding parseURL_def by simp
    with True show ?thesis unfolding rewrite_line_def by simp
  next
    case False
    then show ?thesis unfolding rewrite_line_def by auto
  qed
  then have "\<exists>news. rewrite_lines (rewrite_line U ?m h url) (split_nl content) = Inr news"
    by (intro rewrite_lines_total) blast
  then show ?thesis unfolding rewritePlaylist_def Let_def by auto
qed

text \<open>
  Claim C5 says that for every manifest text the rewrite produces output with as many
  lines as the input. The code does not produce output for every text: \<open>parseURL\<close>
  calls the constructor outside its \<open>try\<close> when a base is given, so a URI line that the
  constructor refuses ends the whole rewrite with an exception, although the loop has a
  branch for an unresolved line. The playlist \<open>bad_host_playlist\<close> has such a line.
  (When the rewrite returns a text, \<open>rewritePlaylist_structure\<close> gives the line count
  and the unchanged lines of the claim, and by \<open>rewritePlaylist_total\<close> it returns one
  whenever the constructor accepts every URI line.)
\<close>

theorem rewrite_fails_on_unresolvable_line:
  "split_nl bad_host_playlist = [''#EXTM3U'', ''http://a b/seg1.ts'', []]
   \<and> demo_URL ''http://a b/seg1.ts'' (Some demo_base) = None
   \<and> rewritePlaylist demo_URL ''{}'' demo_base bad_host_playlist = Inl TypeError"
  by code_simp


end
